theory Spec2Isabelle
  imports
    Main
    "HOL-Library.Sublist"
    "HOL-Library.AList"
    "HOL-Library.Char_ord"
    "HOL-Library.List_Lexorder"
begin

section \<open>Prepare\_RTC\_Stack\_HyP3\_v2: a shallow embedding of the notebook's code cells\<close>

text \<open>
  The notebook is a sequence of code cells that share Python globals, the working
  directory and the files below it.  Each cell that the properties below are about is a
  function here, named after the variable it computes; the files are an association list
  from relative path to content, and every external program (gdalwarp, gdal\_merge.py)
  is a parameter that either yields the content of the file it writes or fails.
\<close>

subsection \<open>Python values and exceptions\<close>

datatype py_error =
    ValueError string
  | IndexError
  | AttributeError

definition newline :: char where
  "newline = CHR 0x0A"

text \<open>\<^verbatim>\<open>xs[k]\<close> for a non-negative index: IndexError out of range.\<close>

definition py_index :: "'a list \<Rightarrow> nat \<Rightarrow> py_error + 'a" where
  "py_index xs k = (if k < length xs then Inr (xs ! k) else Inl IndexError)"

text \<open>\<^verbatim>\<open>s.split(c)\<close> for a one-character separator: every separator cuts, empty
  pieces are kept, the result is never empty.\<close>

fun split_on :: "char \<Rightarrow> string \<Rightarrow> string list" where
  "split_on c [] = [[]]"
| "split_on c (x # xs) =
     (if x = c then [] # split_on c xs
      else (case split_on c xs of
              [] \<Rightarrow> [[x]]
            | w # ws \<Rightarrow> (x # w) # ws))"

text \<open>\<^verbatim>\<open>c.join(ws)\<close>: the pieces with the separator between them.\<close>

fun join_on :: "char \<Rightarrow> string list \<Rightarrow> string" where
  "join_on c [] = []"
| "join_on c [w] = w"
| "join_on c (w # ws) = w @ c # join_on c ws"

text \<open>\<^verbatim>\<open>s.strip()\<close>: leading and trailing ASCII whitespace removed.\<close>

definition is_space :: "char \<Rightarrow> bool" where
  "is_space c = (c \<in> set [CHR '' '', CHR 0x09, CHR 0x0A, CHR 0x0B, CHR 0x0C, CHR 0x0D])"

definition strip :: "string \<Rightarrow> string" where
  "strip s = rev (dropWhile is_space (rev (dropWhile is_space s)))"

subsection \<open>Cell 16: the RTC jobs of the selected project\<close>

text \<open>
  \<^verbatim>\<open>
  jobs = hyp3.find_jobs(name=project)
  jobs = jobs.filter_jobs(running=False, include_expired=False)
  jobs = Batch([job for job in jobs if job.job_type.startswith('RTC')])
  if len(jobs) < 1:
      raise ValueError("There are no unexpired RTC products for this project.\nSelect a different project or rerun your jobs in Vertex.")
  \<close>
  \<open>find_jobs\<close> and \<open>filter_jobs\<close> belong to the HyP3 client: the first is the list the
  cell receives, the second a parameter.
\<close>

record job =
  job_name :: string
  job_type :: string

definition no_products_message :: string where
  "no_products_message =
     ''There are no unexpired RTC products for this project.'' @ [newline] @
     ''Select a different project or rerun your jobs in Vertex.''"

definition select_jobs :: "(job list \<Rightarrow> job list) \<Rightarrow> job list \<Rightarrow> py_error + job list" where
  "select_jobs filter_jobs found =
     (let jobs = filter_jobs found;
          jobs = [j \<leftarrow> jobs. prefix ''RTC'' (job_type j)]
      in if length jobs < 1 then Inl (ValueError no_products_message) else Inr jobs)"

subsection \<open>Cell 47: the authority and the code of every product\<close>

text \<open>
  \<^verbatim>\<open>
  utm_zones = []
  utm_types = []
  for k in range(0, len(tiff_paths)):
      info = (gdal.Info(tiff_paths[k], options = ['-json']))
      info = json.dumps(info)
      info = (json.loads(info))['coordinateSystem']['wkt']
      zone = info.split('ID')[-1].split(',')[1][0:-2]
      utm_zones.append(zone)
  \<close>
  and, in the same loop body, \<open>typ\<close> is the second piece of \<^verbatim>\<open>info.split('ID')[-1]\<close> split
  at the double quote, appended to \<open>utm_types\<close>.  gdal.Info is external: the WKT text
  that it returns for each path is the input.  The code and the authority are cut out
  of what follows the last \<open>ID\<close> of the text; an index out of range raises IndexError.
  \<open>split_str\<close> is \<^verbatim>\<open>s.split(sep)\<close> for a separator of any length.
\<close>

function split_str :: "string \<Rightarrow> string \<Rightarrow> string list" where
  "split_str sep [] = [[]]"
| "split_str sep (c # cs) =
     (if sep \<noteq> [] \<and> prefix sep (c # cs)
      then [] # split_str sep (drop (length sep) (c # cs))
      else (case split_str sep cs of
              [] \<Rightarrow> [[c]]
            | h # t \<Rightarrow> (c # h) # t))"
  by pat_completeness auto
termination
  by (relation "measure (\<lambda>(sep, s). length s)") auto

definition utm_of_wkt :: "string \<Rightarrow> py_error + string \<times> string" where
  "utm_of_wkt info =
     (let tail = last (split_str ''ID'' info)
      in case py_index (split_on CHR '','' tail) 1 of
           Inl e \<Rightarrow> Inl e
         | Inr z \<Rightarrow>
             (case py_index (split_on (CHR 0x22) tail) 1 of
                Inl e \<Rightarrow> Inl e
              | Inr typ \<Rightarrow> Inr (take (length z - 2) z, typ)))"

fun utm_zones_types :: "string list \<Rightarrow> py_error + string list \<times> string list" where
  "utm_zones_types [] = Inr ([], [])"
| "utm_zones_types (info # infos) =
     (case utm_of_wkt info of
        Inl e \<Rightarrow> Inl e
      | Inr (zone, typ) \<Rightarrow>
          (case utm_zones_types infos of
             Inl e \<Rightarrow> Inl e
           | Inr (zones, types) \<Rightarrow> Inr (zone # zones, typ # types)))"

subsection \<open>Cell 49: the predominant UTM zone\<close>

text \<open>
  \<^verbatim>\<open>
  if coord_choice.value == 'UTM':
      utm_unique, counts = np.unique(utm_zones, return_counts=True)
      a = np.where(counts == np.max(counts))
      predominant_utm = utm_unique[a][0]
  else:
      predominant_utm = '4326'
  \<close>
  \<open>np.unique\<close> returns the distinct values in ascending order with the number of
  occurrences of each; \<open>np.max\<close> of an empty array raises ValueError.
\<close>

definition np_unique :: "string list \<Rightarrow> string list \<times> nat list" where
  "np_unique xs = (let u = sort (remdups xs) in (u, map (count_list xs) u))"

definition np_max :: "nat list \<Rightarrow> py_error + nat" where
  "np_max cs =
     (case cs of
        [] \<Rightarrow> Inl (ValueError ''zero-size array to reduction operation maximum which has no identity'')
      | c # cs' \<Rightarrow> Inr (fold max cs' c))"

definition np_where_eq :: "nat list \<Rightarrow> nat \<Rightarrow> nat list" where
  "np_where_eq cs m = [i \<leftarrow> [0..<length cs]. cs ! i = m]"

definition predominant_utm :: "string \<Rightarrow> string list \<Rightarrow> py_error + string" where
  "predominant_utm coord_choice utm_zones =
     (if coord_choice = ''UTM'' then
        (let (utm_unique, counts) = np_unique utm_zones in
         case np_max counts of
           Inl e \<Rightarrow> Inl e
         | Inr m \<Rightarrow>
             (case np_where_eq counts m of
                [] \<Rightarrow> Inl IndexError
              | i # _ \<Rightarrow> Inr (utm_unique ! i)))
      else Inr ''4326'')"

subsection \<open>Regular expressions, as far as the notebook uses them\<close>

text \<open>
  The patterns of the notebook are built from literals, character classes, bounded or
  unbounded repetition of a class, concatenation and alternation, and end with \<open>$\<close>.
  \<open>rx_step r s\<close> lists what is left of \<open>s\<close> after each way \<open>r\<close> can match a prefix of
  it, in the order the backtracking matcher tries them (the left alternative first, the
  longest repetition first).  Characters are ASCII: \<open>\w\<close> is a letter, a digit or the
  underscore, \<open>[\--~]\<close> is the range from \<open>-\<close> to \<open>~\<close>, and \<open>.\<close> is any character but the
  newline.
\<close>

datatype rx =
    Lit string
  | Cls "char \<Rightarrow> bool"
  | Rep nat "nat option" "char \<Rightarrow> bool"
  | Cat rx rx
  | Alt rx rx

definition is_digit :: "char \<Rightarrow> bool" where
  "is_digit c = (CHR ''0'' \<le> c \<and> c \<le> CHR ''9'')"

definition is_word_char :: "char \<Rightarrow> bool" where
  "is_word_char c =
     (is_digit c \<or> (CHR ''a'' \<le> c \<and> c \<le> CHR ''z'') \<or> (CHR ''A'' \<le> c \<and> c \<le> CHR ''Z'') \<or>
      c = CHR ''_'')"

definition dash_to_tilde :: "char \<Rightarrow> bool" where
  "dash_to_tilde c = (CHR ''-'' \<le> c \<and> c \<le> CHR ''~'')"

definition any_char :: "char \<Rightarrow> bool" where
  "any_char c = (c \<noteq> newline)"

primrec rx_step :: "rx \<Rightarrow> string \<Rightarrow> string list" where
  "rx_step (Lit p) s = (if prefix p s then [drop (length p) s] else [])"
| "rx_step (Cls P) s = (case s of [] \<Rightarrow> [] | c # cs \<Rightarrow> if P c then [cs] else [])"
| "rx_step (Rep lo hi P) s =
     (let run = length (takeWhile P s);
          top = (case hi of None \<Rightarrow> run | Some h \<Rightarrow> min h run)
      in map (\<lambda>n. drop n s) (rev [lo..<Suc top]))"
| "rx_step (Cat a b) s = concat (map (rx_step b) (rx_step a s))"
| "rx_step (Alt a b) s = rx_step a s @ rx_step b s"

text \<open>\<^verbatim>\<open>re.search(r + "$", s)\<close> as a truth value: \<open>r\<close> matches from some position up to
  the end of \<open>s\<close>, or up to a newline that ends \<open>s\<close>.\<close>

definition at_end :: "string \<Rightarrow> bool" where
  "at_end rest = (rest = [] \<or> rest = [newline])"

definition re_search_dollar :: "rx \<Rightarrow> string \<Rightarrow> bool" where
  "re_search_dollar r s = list_ex (\<lambda>u. list_ex at_end (rx_step r u)) (suffixes s)"

text \<open>\<^verbatim>\<open>re.search(r, s).group(0)\<close>: the text of the leftmost match, None without one.\<close>

definition re_search_group0 :: "rx \<Rightarrow> string \<Rightarrow> string option" where
  "re_search_group0 r s =
     (case [u \<leftarrow> rev (suffixes s). rx_step r u \<noteq> []] of
        [] \<Rightarrow> None
      | u # _ \<Rightarrow>
          (case rx_step r u of
             [] \<Rightarrow> None
           | rest # _ \<Rightarrow> Some (take (length u - length rest) u)))"

subsection \<open>Glob patterns over the files\<close>

text \<open>
  The files of the working directory are an association list from the path relative to
  it to the content, in the order in which the directory lists them.  \<open>glob.glob\<close> splits
  the pattern at \<open>/\<close> and matches component by component: \<open>*\<close> is any run of characters,
  \<open>?\<close> any one character, and a component with a wildcard does not match a name that
  starts with a dot.  (Bracket expressions do not occur in the patterns of the notebook.)
\<close>

type_synonym 'c filesys = "(string \<times> 'c) list"

fun fnmatch :: "string \<Rightarrow> string \<Rightarrow> bool" where
  "fnmatch [] n = (n = [])"
| "fnmatch (q # qs) n =
     (if q = CHR ''*'' then list_ex (\<lambda>k. fnmatch qs (drop k n)) [0..<Suc (length n)]
      else (case n of
              [] \<Rightarrow> False
            | c # cs \<Rightarrow> (q = CHR ''?'' \<or> q = c) \<and> fnmatch qs cs))"

definition has_magic :: "string \<Rightarrow> bool" where
  "has_magic q = list_ex (\<lambda>c. c = CHR ''*'' \<or> c = CHR ''?'') q"

definition glob_component :: "string \<Rightarrow> string \<Rightarrow> bool" where
  "glob_component q n =
     (if has_magic q then n \<noteq> [] \<and> take 1 n \<noteq> ''.'' \<and> fnmatch q n else n = q)"

definition glob_match :: "string \<Rightarrow> string \<Rightarrow> bool" where
  "glob_match pat pth = list_all2 glob_component (split_on CHR ''/'' pat) (split_on CHR ''/'' pth)"

definition glob :: "string \<Rightarrow> 'c filesys \<Rightarrow> string list" where
  "glob pat fs = [pth \<leftarrow> map fst fs. glob_match pat pth]"


subsection \<open>The shell, the external programs and the helper module\<close>

text \<open>
  \<open>!$cmd\<close> hands the command line to the shell, which cuts it into words at spaces
  (quoting and expansion are not modelled: the paths of the notebook contain none of
  the shell's special characters).  gdalwarp is called as
  \<open>gdalwarp -overwrite src dst -s_srs s -t_srs t\<close> and writes \<open>dst\<close>, gdal\_merge.py as
  \<open>gdal_merge.py -o out in ...\<close> and writes \<open>out\<close>; what they compute is a parameter,
  \<open>None\<close> when the program fails and writes nothing.  \<open>rm\<close> removes the
  files it is given.  Every command line the shell runs is recorded in \<open>calls\<close>.
  \<open>date_from_product_name\<close> is a function of the helper module \<open>asf_notebook\<close>.
\<close>

record 'c tools =
  gdalwarp :: "string list \<Rightarrow> 'c filesys \<Rightarrow> 'c option"
  gdal_merge :: "string list \<Rightarrow> 'c filesys \<Rightarrow> 'c option"
  date_from_product_name :: "string \<Rightarrow> string option"

record 'c world =
  files :: "'c filesys"
  calls :: "string list list"

definition sh_words :: "string \<Rightarrow> string list" where
  "sh_words cmd = [w \<leftarrow> split_on CHR '' '' cmd. w \<noteq> []]"

definition write_file :: "string \<Rightarrow> 'c \<Rightarrow> 'c world \<Rightarrow> 'c world" where
  "write_file pth c w = w\<lparr>files := AList.update pth c (files w)\<rparr>"

definition os_remove :: "string \<Rightarrow> 'c world \<Rightarrow> 'c world" where
  "os_remove pth w = w\<lparr>files := AList.delete pth (files w)\<rparr>"

definition path_exists :: "'c world \<Rightarrow> string \<Rightarrow> bool" where
  "path_exists w pth = (pth \<in> fst ` set (files w))"

definition shell :: "'c tools \<Rightarrow> string \<Rightarrow> 'c world \<Rightarrow> 'c world" where
  "shell T cmd w =
     (let argv = sh_words cmd;
          w' = w\<lparr>calls := calls w @ [argv]\<rparr>
      in case argv of
           [] \<Rightarrow> w
         | prog # args \<Rightarrow>
             if prog = ''gdalwarp'' then
               (if length args = 7 then
                  (case gdalwarp T argv (files w) of
                     None \<Rightarrow> w'
                   | Some c \<Rightarrow> write_file (args ! 2) c w')
                else w')
             else if prog = ''gdal_merge.py'' then
               (if 2 \<le> length args then
                  (case gdal_merge T argv (files w) of
                     None \<Rightarrow> w'
                   | Some c \<Rightarrow> write_file (args ! 1) c w')
                else w')
             else if prog = ''rm'' then fold os_remove args w'
             else w')"

subsection \<open>Cells 10, 38 and 44: the pattern of the selected polarization\<close>

text \<open>
  \<^verbatim>\<open>
  if len(polarization) == 2:
      regex = "\w[\--~]{{5,300}}(_|-){}.(tif|tiff)$".format(polarization)
      dbl_polar = False
  else:
      regex = "\w[\--~]{{5,300}}(_|-){}(v|V|h|H).(tif|tiff)$".format(polarization[0])
      dbl_polar = True
  rtc_path = "rtc_products"
  tiff_pth = f"{rtc_path}/*/*{polarization[0]}*.tif*"
  \<close>
  The polarization comes from a menu of the channels found (\<open>VV\<close>, \<open>VH\<close>, \<open>HH\<close>, \<open>HV\<close> and
  pairs such as \<open>VV and VH\<close>): its letters stand for themselves in the pattern.
\<close>

definition tif_or_tiff :: rx where
  "tif_or_tiff = Cat (Cls any_char) (Alt (Lit ''tif'') (Lit ''tiff''))"

definition regex_of :: "rx \<Rightarrow> rx" where
  "regex_of pol =
     Cat (Cls is_word_char) (Cat (Rep 5 (Some 300) dash_to_tilde)
       (Cat (Alt (Lit ''_'') (Lit ''-'')) (Cat pol tif_or_tiff)))"

definition regex_dbl_polar :: "string \<Rightarrow> py_error + rx \<times> bool" where
  "regex_dbl_polar polarization =
     (if length polarization = 2 then Inr (regex_of (Lit polarization), False)
      else (case polarization of
              [] \<Rightarrow> Inl IndexError
            | p0 # _ \<Rightarrow>
                Inr (regex_of (Cat (Lit [p0])
                       (Alt (Lit ''v'') (Alt (Lit ''V'') (Alt (Lit ''h'') (Lit ''H''))))), True)))"

definition rtc_path :: string where
  "rtc_path = ''rtc_products''"

definition tiff_pth :: "string \<Rightarrow> py_error + string" where
  "tiff_pth polarization =
     (case polarization of
        [] \<Rightarrow> Inl IndexError
      | p0 # _ \<Rightarrow> Inr (rtc_path @ ''/*/*'' @ [p0] @ ''*.tif*''))"

subsection \<open>Cells 40 and 42: get\_tiff\_paths and get\_dates\<close>

text \<open>
  \<^verbatim>\<open>
  def get_tiff_paths(regex, polarization, pths):
      tiff_paths = []
      for pth in glob.glob(pths):
          tiff_path = re.search(regex, pth)
          if tiff_path:
              tiff_paths.append(pth)
      return tiff_paths

  def get_dates(tiff_paths):
      dates = []
      for pth in tiff_paths:
          dates.append(asfn.date_from_product_name(pth).split('T')[0])
      return dates
  \<close>
  \<open>date_from_product_name\<close> returns None for a name without a timestamp, and \<open>.split\<close>
  of None raises AttributeError.
\<close>

definition get_tiff_paths :: "rx \<Rightarrow> string \<Rightarrow> string \<Rightarrow> 'c filesys \<Rightarrow> string list" where
  "get_tiff_paths regex polarization pths fs = [pth \<leftarrow> glob pths fs. re_search_dollar regex pth]"

definition product_date :: "'c tools \<Rightarrow> string \<Rightarrow> py_error + string" where
  "product_date T pth =
     (case date_from_product_name T pth of
        None \<Rightarrow> Inl AttributeError
      | Some stamp \<Rightarrow>
          (case split_on CHR ''T'' stamp of
             [] \<Rightarrow> Inl IndexError
           | d # _ \<Rightarrow> Inr d))"

fun get_dates :: "'c tools \<Rightarrow> string list \<Rightarrow> py_error + string list" where
  "get_dates T [] = Inr []"
| "get_dates T (pth # tiff_paths) =
     (case product_date T pth of
        Inl e \<Rightarrow> Inl e
      | Inr d \<Rightarrow>
          (case get_dates T tiff_paths of
             Inl e \<Rightarrow> Inl e
           | Inr dates \<Rightarrow> Inr (d # dates)))"

subsection \<open>Cell 51: reprojection to the predominant zone\<close>

text \<open>
  \<^verbatim>\<open>
  reproject_indicies = [i for i, j in enumerate(utm_zones) if j != predominant_utm]
  for k in reproject_indicies:
      temppath = tiff_paths[k].strip()
      _, product_name, tiff_name = temppath.split('/')
      cmd = f"gdalwarp -overwrite rtc_products/{product_name}/{tiff_name}"\
            f" rtc_products/{product_name}/r{tiff_name} -s_srs {utm_types[k]}:"\
            f"{utm_zones[k]} -t_srs EPSG:{predominant_utm}"
      !$cmd
      rm_cmd = f"rm {tiff_paths[k].strip()}"
      !$rm_cmd
  \<close>
\<close>

definition reproject_indicies :: "string list \<Rightarrow> string \<Rightarrow> nat list" where
  "reproject_indicies utm_zones predominant = [i \<leftarrow> [0..<length utm_zones]. utm_zones ! i \<noteq> predominant]"

definition warp_cmd :: "string \<Rightarrow> string \<Rightarrow> string \<Rightarrow> string \<Rightarrow> string \<Rightarrow> string" where
  "warp_cmd product_name tiff_name utm_type utm_zone predominant =
     ''gdalwarp -overwrite rtc_products/'' @ product_name @ ''/'' @ tiff_name @
     '' rtc_products/'' @ product_name @ ''/r'' @ tiff_name @
     '' -s_srs '' @ utm_type @ '':'' @ utm_zone @ '' -t_srs EPSG:'' @ predominant"

definition reproject_one ::
  "'c tools \<Rightarrow> string list \<Rightarrow> string list \<Rightarrow> string list \<Rightarrow> string \<Rightarrow> nat \<Rightarrow> 'c world \<Rightarrow>
   py_error + 'c world" where
  "reproject_one T tiff_paths utm_types utm_zones predominant k w =
     (case py_index tiff_paths k of
        Inl e \<Rightarrow> Inl e
      | Inr tiff_path \<Rightarrow>
          (case split_on CHR ''/'' (strip tiff_path) of
             [_, product_name, tiff_name] \<Rightarrow>
               (case py_index utm_types k of
                  Inl e \<Rightarrow> Inl e
                | Inr utm_type \<Rightarrow>
                    (case py_index utm_zones k of
                       Inl e \<Rightarrow> Inl e
                     | Inr utm_zone \<Rightarrow>
                         Inr (shell T (''rm '' @ strip tiff_path)
                               (shell T (warp_cmd product_name tiff_name utm_type utm_zone predominant) w))))
           | _ \<Rightarrow> Inl (ValueError ''values to unpack (expected 3)'')))"

fun reproject_all ::
  "'c tools \<Rightarrow> string list \<Rightarrow> string list \<Rightarrow> string list \<Rightarrow> string \<Rightarrow> nat list \<Rightarrow> 'c world \<Rightarrow>
   py_error + 'c world" where
  "reproject_all T tiff_paths utm_types utm_zones predominant [] w = Inr w"
| "reproject_all T tiff_paths utm_types utm_zones predominant (k # ks) w =
     (case reproject_one T tiff_paths utm_types utm_zones predominant k w of
        Inl e \<Rightarrow> Inl e
      | Inr w' \<Rightarrow> reproject_all T tiff_paths utm_types utm_zones predominant ks w')"

text \<open>The two command lines that the loop body issues for index \<open>k\<close>.\<close>

definition reproject_cmds :: "string list \<Rightarrow> string list \<Rightarrow> string list \<Rightarrow> string \<Rightarrow> nat \<Rightarrow> string list" where
  "reproject_cmds tiff_paths utm_types utm_zones predominant k =
     (case split_on CHR ''/'' (strip (tiff_paths ! k)) of
        [_, product_name, tiff_name] \<Rightarrow>
          [warp_cmd product_name tiff_name (utm_types ! k) (utm_zones ! k) predominant,
           ''rm '' @ strip (tiff_paths ! k)]
      | _ \<Rightarrow> [])"

text \<open>Cells 49 and 51 in sequence: the Coordinate Normalizer on the zones and types
  that cell 47 read from the files.\<close>

definition coordinate_normalizer ::
  "'c tools \<Rightarrow> string \<Rightarrow> string list \<Rightarrow> string list \<Rightarrow> string list \<Rightarrow> 'c world \<Rightarrow> py_error + 'c world" where
  "coordinate_normalizer T coord_choice tiff_paths utm_types utm_zones w =
     (case predominant_utm coord_choice utm_zones of
        Inl e \<Rightarrow> Inl e
      | Inr predominant \<Rightarrow>
          reproject_all T tiff_paths utm_types utm_zones predominant
            (reproject_indicies utm_zones predominant) w)"

subsection \<open>Cells 55 to 59: the dates with more than one file\<close>

text \<open>
  \<^verbatim>\<open>
  dates = get_dates(tiff_paths)
  unique_dates = set(dates)
  dup_date_batches = [{}]
  for date in unique_dates:
      count = 0
      for d in dates:
          if date == d:
              count +=1
      if count > 1:
          dup_date_batches[0].update({date : ""})
  if dbl_polar:
      dup_date_batches.append(copy.deepcopy(dup_date_batches[0]))
  \<close>
  A dictionary is an association list in insertion order.  The order in which a Python
  set is iterated is not specified; here it is the order of \<open>remdups\<close>.
\<close>

type_synonym batch = "(string \<times> string) list"

definition unique_dates :: "string list \<Rightarrow> string list" where
  "unique_dates dates = remdups dates"

definition dup_date_batches :: "bool \<Rightarrow> string list \<Rightarrow> batch list" where
  "dup_date_batches dbl_polar dates =
     (let batch0 = fold (\<lambda>date d. if count_list dates date > 1 then AList.update date [] d else d)
                     (unique_dates dates) []
      in if dbl_polar then [batch0, batch0] else [batch0])"

subsection \<open>Cell 61: the paths of every duplicated date, per polarization\<close>

text \<open>
  \<^verbatim>\<open>
  if dbl_polar:
      polar_list = [polarization.split(' ')[0], polarization.split(' ')[2]]
  else:
      polar_list = [polarization]
  for i, polar in enumerate(polar_list):
      polar_regex = f"(\w|/)*_{polar}.(tif|tiff)$"
      polar_paths = get_tiff_paths(polar_regex, polar, tiff_pth)
      for pth in polar_paths:
          date = asfn.date_from_product_name(pth).split('T')[0]
          if date in dup_date_batches[i]:
              dup_date_batches[i][date] = f"{dup_date_batches[i][date]} {pth}"
  \<close>
\<close>

definition polar_list :: "bool \<Rightarrow> string \<Rightarrow> py_error + string list" where
  "polar_list dbl_polar polarization =
     (if dbl_polar then
        (case py_index (split_on CHR '' '' polarization) 0 of
           Inl e \<Rightarrow> Inl e
         | Inr a \<Rightarrow>
             (case py_index (split_on CHR '' '' polarization) 2 of
                Inl e \<Rightarrow> Inl e
              | Inr b \<Rightarrow> Inr [a, b]))
      else Inr [polarization])"

definition word_or_slash :: "char \<Rightarrow> bool" where
  "word_or_slash c = (is_word_char c \<or> c = CHR ''/'')"

definition polar_regex :: "string \<Rightarrow> rx" where
  "polar_regex polar = Cat (Rep 0 None word_or_slash) (Cat (Lit ''_'') (Cat (Lit polar) tif_or_tiff))"

fun add_paths :: "'c tools \<Rightarrow> nat \<Rightarrow> string list \<Rightarrow> batch list \<Rightarrow> py_error + batch list" where
  "add_paths T i [] batches = Inr batches"
| "add_paths T i (pth # polar_paths) batches =
     (case product_date T pth of
        Inl e \<Rightarrow> Inl e
      | Inr date \<Rightarrow>
          (case py_index batches i of
             Inl e \<Rightarrow> Inl e
           | Inr d \<Rightarrow>
               (case map_of d date of
                  None \<Rightarrow> add_paths T i polar_paths batches
                | Some v \<Rightarrow>
                    add_paths T i polar_paths
                      (batches[i := AList.update date (v @ '' '' @ pth) d]))))"

fun update_batches ::
  "'c tools \<Rightarrow> string \<Rightarrow> 'c filesys \<Rightarrow> (nat \<times> string) list \<Rightarrow> batch list \<Rightarrow> py_error + batch list" where
  "update_batches T pths fs [] batches = Inr batches"
| "update_batches T pths fs ((i, polar) # rest) batches =
     (case add_paths T i (get_tiff_paths (polar_regex polar) polar pths fs) batches of
        Inl e \<Rightarrow> Inl e
      | Inr batches' \<Rightarrow> update_batches T pths fs rest batches')"

subsection \<open>Cell 63: one gdal\_merge.py call per duplicated date\<close>

text \<open>
  \<^verbatim>\<open>
  for i, dup_dates in enumerate(dup_date_batches):
      for dup_date in dup_dates:
          output = f"{dup_dates[dup_date].split('/')[0]}/{dup_dates[dup_date].split('/')[1]}/new{dup_dates[dup_date].split('/')[2].split(' ')[0]}"
          gdal_command = f"gdal_merge.py -o {output} {dup_dates[dup_date]}"
          !$gdal_command
          for pth in dup_dates[dup_date].split(' '):
              if pth and asfn.path_exists(pth):
                  os.remove(pth)
  \<close>
\<close>

definition merge_output :: "string \<Rightarrow> py_error + string" where
  "merge_output v =
     (case split_on CHR ''/'' v of
        p0 # p1 # p2 # _ \<Rightarrow>
          (case split_on CHR '' '' p2 of
             [] \<Rightarrow> Inl IndexError
           | n # _ \<Rightarrow> Inr (p0 @ ''/'' @ p1 @ ''/new'' @ n))
      | _ \<Rightarrow> Inl IndexError)"

definition remove_existing :: "string \<Rightarrow> 'c world \<Rightarrow> 'c world" where
  "remove_existing pth w = (if pth \<noteq> [] \<and> path_exists w pth then os_remove pth w else w)"

definition merge_date :: "'c tools \<Rightarrow> string \<Rightarrow> 'c world \<Rightarrow> py_error + 'c world" where
  "merge_date T v w =
     (case merge_output v of
        Inl e \<Rightarrow> Inl e
      | Inr output \<Rightarrow>
          Inr (fold remove_existing (split_on CHR '' '' v)
                (shell T (''gdal_merge.py -o '' @ output @ '' '' @ v) w)))"

fun merge_dates :: "'c tools \<Rightarrow> batch \<Rightarrow> 'c world \<Rightarrow> py_error + 'c world" where
  "merge_dates T [] w = Inr w"
| "merge_dates T ((dup_date, v) # dup_dates) w =
     (case merge_date T v w of
        Inl e \<Rightarrow> Inl e
      | Inr w' \<Rightarrow> merge_dates T dup_dates w')"

fun merge_batches :: "'c tools \<Rightarrow> batch list \<Rightarrow> 'c world \<Rightarrow> py_error + 'c world" where
  "merge_batches T [] w = Inr w"
| "merge_batches T (dup_dates # batches) w =
     (case merge_dates T dup_dates w of
        Inl e \<Rightarrow> Inl e
      | Inr w' \<Rightarrow> merge_batches T batches w')"

text \<open>The candidate dates of cells 53 to 61, and the Duplicate-Date Merger: those cells
  followed by cell 63.\<close>

definition merge_candidates :: "'c tools \<Rightarrow> string \<Rightarrow> 'c filesys \<Rightarrow> py_error + batch list" where
  "merge_candidates T polarization fs =
     (case regex_dbl_polar polarization of
        Inl e \<Rightarrow> Inl e
      | Inr (regex, dbl_polar) \<Rightarrow>
          (case tiff_pth polarization of
             Inl e \<Rightarrow> Inl e
           | Inr pths \<Rightarrow>
               (case get_dates T (get_tiff_paths regex polarization pths fs) of
                  Inl e \<Rightarrow> Inl e
                | Inr dates \<Rightarrow>
                    (case polar_list dbl_polar polarization of
                       Inl e \<Rightarrow> Inl e
                     | Inr polars \<Rightarrow>
                         update_batches T pths fs (enumerate 0 polars)
                           (dup_date_batches dbl_polar dates)))))"

definition duplicate_date_merger :: "'c tools \<Rightarrow> string \<Rightarrow> 'c world \<Rightarrow> py_error + 'c world" where
  "duplicate_date_merger T polarization w =
     (case merge_candidates T polarization (files w) of
        Inl e \<Rightarrow> Inl e
      | Inr batches \<Rightarrow> merge_batches T batches w)"

text \<open>The value that cell 61 builds for a date from its paths, the paths that the
  notebook handles (\<open>dir/product/name\<close>, no space), and the output path that cell 63
  forms from the first path of a value.\<close>

definition spaced :: "string list \<Rightarrow> string" where
  "spaced pths = concat (map ((#) (CHR '' '')) pths)"

definition product_path :: "string \<Rightarrow> bool" where
  "product_path pth = (length (split_on CHR ''/'' pth) = 3 \<and> CHR '' '' \<notin> set pth)"

definition merged_path :: "string \<Rightarrow> string" where
  "merged_path pth =
     (case split_on CHR ''/'' pth of
        [d0, d1, n] \<Rightarrow> d0 @ ''/'' @ d1 @ ''/new'' @ n
      | _ \<Rightarrow> [])"

subsection \<open>Cell 65: the report on duplicate dates\<close>



subsection \<open>The timestamp of a product name\<close>

text \<open>
  Modelled from the spec: \<open>date_from_product_name\<close> of the helper module \<open>asf_notebook\<close>
  is not among the sources.  The specification says that the acquisition date is
  parsed from the file name as the date token preceding a time separator; HyP3 product
  names carry the acquisition time as \<open>yyyymmddThhmmss\<close>, so the helper is modelled as the
  leftmost such token of the name, and None when there is none.  The functions above
  take the helper as a parameter; this model instantiates it in the examples.
\<close>

definition timestamp_rx :: rx where
  "timestamp_rx = Cat (Rep 8 (Some 8) is_digit) (Cat (Lit ''T'') (Rep 6 (Some 6) is_digit))"

definition hyp3_date_from_product_name :: "string \<Rightarrow> string option" where
  "hyp3_date_from_product_name product_name = re_search_group0 timestamp_rx product_name"

text \<open>\<open>ts_at u\<close>: a timestamp \<open>yyyymmddThhmmss\<close> stands at the head of \<open>u\<close>.\<close>

definition ts_at :: "string \<Rightarrow> bool" where
  "ts_at u = (15 \<le> length u \<and> (\<forall>i<8. is_digit (u ! i)) \<and> u ! 8 = CHR ''T'' \<and>
              (\<forall>i<6. is_digit (u ! (9 + i))))"

subsection \<open>The tally as the specification words it\<close>

text \<open>
  The specification tallies occurrences per unique (authority, code) pair and takes a
  pair with the maximal count.  \<open>pair_tally_majority pairs p\<close> says, in those words, that
  \<open>p\<close> is such a pair of the list of pairs read from the files.
\<close>

definition pair_tally_majority :: "(string \<times> string) list \<Rightarrow> string \<times> string \<Rightarrow> bool" where
  "pair_tally_majority pairs p =
     (p \<in> set pairs \<and> list_all (\<lambda>q. count_list pairs q \<le> count_list pairs p) pairs)"

subsection \<open>Two installations for the examples\<close>

text \<open>
  A raster is a frame as downloaded, the result of warping a raster to a coordinate
  system, or the mosaic of rasters.  With \<open>working_tools\<close> both programs succeed
  whenever their inputs exist; with \<open>failing_tools\<close> both fail.
\<close>

datatype raster = Frame nat | Warped raster string | Mosaic "raster list"

definition read_all :: "raster filesys \<Rightarrow> string list \<Rightarrow> raster list option" where
  "read_all fs pths = (if pths = [] then None else those (map (map_of fs) pths))"

definition working_tools :: "raster tools" where
  "working_tools =
     \<lparr>gdalwarp = (\<lambda>argv fs. map_option (\<lambda>r. Warped r (last argv)) (map_of fs (argv ! 2))),
      gdal_merge = (\<lambda>argv fs. map_option Mosaic (read_all fs (drop 3 argv))),
      date_from_product_name = hyp3_date_from_product_name\<rparr>"

definition failing_tools :: "raster tools" where
  "failing_tools =
     \<lparr>gdalwarp = (\<lambda>argv fs. None),
      gdal_merge = (\<lambda>argv fs. None),
      date_from_product_name = hyp3_date_from_product_name\<rparr>"

text \<open>
  Five states of the working directory.  In \<open>two_frames_vv\<close> the acquisition of
  2021-01-01 is covered by two frames and that of 2021-01-13 by one; in
  \<open>four_frames_vv\<close> both acquisitions are covered by two frames; \<open>one_frame_dual\<close>
  holds one frame in both channels and \<open>two_frames_dual\<close> two frames of one
  acquisition in both channels; in \<open>leftover_vv\<close> a frame lies beside a file that
  carries its name with \<open>new\<close> in front.
\<close>

definition two_frames_vv :: "raster world" where
  "two_frames_vv =
     \<lparr>files = [(''rtc_products/P1/S1_20210101T000000_VV.tif'', Frame 0),
               (''rtc_products/P2/S1_20210101T000025_VV.tif'', Frame 1),
               (''rtc_products/P3/S1_20210113T000000_VV.tif'', Frame 2)],
      calls = []\<rparr>"

definition four_frames_vv :: "raster world" where
  "four_frames_vv =
     \<lparr>files = [(''rtc_products/P1/S1_20210101T000000_VV.tif'', Frame 0),
               (''rtc_products/P2/S1_20210101T000025_VV.tif'', Frame 1),
               (''rtc_products/P3/S1_20210113T000000_VV.tif'', Frame 2),
               (''rtc_products/P4/S1_20210113T000025_VV.tif'', Frame 3)],
      calls = []\<rparr>"

definition one_frame_dual :: "raster world" where
  "one_frame_dual =
     \<lparr>files = [(''rtc_products/P1/S1_20210101T000000_VV.tif'', Frame 0),
               (''rtc_products/P1/S1_20210101T000000_VH.tif'', Frame 1)],
      calls = []\<rparr>"

definition two_frames_dual :: "raster world" where
  "two_frames_dual =
     \<lparr>files = [(''rtc_products/P1/S1_20210101T000000_VV.tif'', Frame 0),
               (''rtc_products/P1/S1_20210101T000000_VH.tif'', Frame 1),
               (''rtc_products/P2/S1_20210101T000025_VV.tif'', Frame 2),
               (''rtc_products/P2/S1_20210101T000025_VH.tif'', Frame 3)],
      calls = []\<rparr>"

definition leftover_vv :: "raster world" where
  "leftover_vv =
     \<lparr>files = [(''rtc_products/P1/S1_20210101T000000_VV.tif'', Frame 0),
               (''rtc_products/P1/newS1_20210101T000000_VV.tif'', Frame 1)],
      calls = []\<rparr>"

text \<open>
  The WKT text of a projected coordinate system as far as cell 47 reads it: the
  identifier of the system is the last \<open>ID\<close> of the text.  In \<open>three_products\<close> three
  acquisitions are covered by one frame each.
\<close>

definition quoted :: "string \<Rightarrow> string" where
  "quoted s = CHR 0x22 # s @ [CHR 0x22]"

definition projcrs_wkt :: "string \<Rightarrow> string \<Rightarrow> string \<Rightarrow> string" where
  "projcrs_wkt crs_name authority code =
     ''PROJCRS['' @ quoted crs_name @
     '',BASEGEOGCRS['' @ quoted ''WGS 84'' @ '',ID['' @ quoted ''EPSG'' @ '',4326]]'' @
     '',CS[Cartesian,2],LENGTHUNIT['' @ quoted ''metre'' @ '',1]'' @
     '',ID['' @ quoted authority @ '','' @ code @ '']]''"

definition three_products :: "raster world" where
  "three_products =
     \<lparr>files = [(''rtc_products/P1/S1_20210101T000000_VV.tif'', Frame 0),
               (''rtc_products/P2/S1_20210113T000000_VV.tif'', Frame 1),
               (''rtc_products/P3/S1_20210125T000000_VV.tif'', Frame 2)],
      calls = []\<rparr>"

section \<open>Properties\<close>

subsection \<open>The product list (cell 16)\<close>

lemma select_from_filter:
  "((if length (filter P xs) < 1 then Inl e else Inr (filter P xs)) = Inl e) = (\<not> (\<exists>x\<in>set xs. P x))"
  "(\<exists>x\<in>set xs. P x) \<Longrightarrow>
     (if length (filter P xs) < 1 then Inl e else Inr (filter P xs)) = Inr (filter P xs)"
  by (auto simp: filter_empty_conv)

text \<open>
  C8.  When the filtered job list holds no RTC product, the cell raises ValueError with
  the message that tells the user to select a different project, and nothing after the
  \<open>raise\<close> runs; otherwise it goes on with the RTC jobs.
\<close>

theorem select_jobs_no_products:
  "((select_jobs filter_jobs found = Inl (ValueError no_products_message)) =
     (\<not> (\<exists>j \<in> set (filter_jobs found). prefix ''RTC'' (job_type j)))) \<and>
   ((\<exists>j \<in> set (filter_jobs found). prefix ''RTC'' (job_type j)) \<longrightarrow>
     select_jobs filter_jobs found = Inr [j \<leftarrow> filter_jobs found. prefix ''RTC'' (job_type j)]) \<and>
   sublist ''Select a different project'' no_products_message"
proof (intro conjI impI)
  show "(select_jobs filter_jobs found = Inl (ValueError no_products_message)) =
     (\<not> (\<exists>j \<in> set (filter_jobs found). prefix ''RTC'' (job_type j)))"
    unfolding select_jobs_def Let_def by (rule select_from_filter(1))
  show "select_jobs filter_jobs found = Inr [j \<leftarrow> filter_jobs found. prefix ''RTC'' (job_type j)]"
    if "\<exists>j \<in> set (filter_jobs found). prefix ''RTC'' (job_type j)"
    unfolding select_jobs_def Let_def using that by (rule select_from_filter(2))
  have "no_products_message =
      ''There are no unexpired RTC products for this project.'' @ [newline] @
      ''Select a different project'' @ '' or rerun your jobs in Vertex.''"
    by (simp add: no_products_message_def)
  then show "sublist ''Select a different project'' no_products_message"
    unfolding sublist_def by (metis append.assoc)
qed

theorem select_jobs_no_products_witness:
  "select_jobs (filter (\<lambda>j. job_name j = ''flood''))
     [\<lparr>job_name = ''flood'', job_type = ''INSAR_GAMMA''\<rparr>,
      \<lparr>job_name = ''fire'', job_type = ''RTC_GAMMA''\<rparr>]
   = Inl (ValueError no_products_message) \<and>
   select_jobs (filter (\<lambda>j. job_name j = ''fire''))
     [\<lparr>job_name = ''flood'', job_type = ''INSAR_GAMMA''\<rparr>,
      \<lparr>job_name = ''fire'', job_type = ''RTC_GAMMA''\<rparr>]
   = Inr [\<lparr>job_name = ''fire'', job_type = ''RTC_GAMMA''\<rparr>]"
  using select_jobs_no_products
          [of "filter (\<lambda>j. job_name j = ''flood'')"
              "[\<lparr>job_name = ''flood'', job_type = ''INSAR_GAMMA''\<rparr>,
                \<lparr>job_name = ''fire'', job_type = ''RTC_GAMMA''\<rparr>]"]
        select_jobs_no_products
          [of "filter (\<lambda>j. job_name j = ''fire'')"
              "[\<lparr>job_name = ''flood'', job_type = ''INSAR_GAMMA''\<rparr>,
                \<lparr>job_name = ''fire'', job_type = ''RTC_GAMMA''\<rparr>]"]
  by simp

subsection \<open>The predominant zone (cell 49)\<close>

lemma np_max_Max: "cs \<noteq> [] \<Longrightarrow> np_max cs = Inr (Max (set cs))"
  by (cases cs) (simp_all add: np_max_def Max.set_eq_fold[symmetric] del: set_simps)

lemma first_index_upt:
  assumes "filter P [0..<n] = i # r"
  shows "i < n \<and> P i \<and> (\<forall>j<i. \<not> P j)"
proof -
  have mem: "i \<in> set (filter P [0..<n])"
    by (simp add: assms)
  have "\<not> P j" if "j < i" for j
  proof
    assume "P j"
    from mem have "i < n" by simp
    with \<open>P j\<close> that have "j \<in> set (filter P [0..<n])" by simp
    then have "j \<in> set (i # r)" by (simp only: assms)
    moreover have "sorted (filter P [0..<n])" by (simp add: sorted_wrt_filter)
    then have "sorted (i # r)" by (simp only: assms)
    ultimately have "i \<le> j" by auto
    with that show False by simp
  qed
  with mem show ?thesis by auto
qed

lemma np_unique_props:
  assumes "np_unique zones = (u, counts)"
  shows "sorted u" "distinct u" "set u = set zones" "counts = map (count_list zones) u"
  using assms by (auto simp: np_unique_def Let_def)

lemma predominant_utm_unfold:
  assumes "np_unique zones = (u, counts)"
  shows "predominant_utm ''UTM'' zones =
     (case np_max counts of
        Inl e \<Rightarrow> Inl e
      | Inr m \<Rightarrow>
          (case np_where_eq counts m of
             [] \<Rightarrow> Inl IndexError
           | i # _ \<Rightarrow> Inr (u ! i)))"
  unfolding predominant_utm_def using assms by simp

lemma predominant_utm_total:
  assumes "zones \<noteq> []"
  shows "\<exists>z. predominant_utm ''UTM'' zones = Inr z"
proof -
  obtain u counts where nu: "np_unique zones = (u, counts)" by (cases "np_unique zones")
  note p = np_unique_props[OF nu]
  from assms p(3) have "u \<noteq> []" by auto
  then have cne: "counts \<noteq> []" using p(4) by simp
  then have "Max (set counts) \<in> set counts" by simp
  then obtain i where "i < length counts" "counts ! i = Max (set counts)"
    by (auto simp: in_set_conv_nth)
  then have "i \<in> set (np_where_eq counts (Max (set counts)))"
    by (simp add: np_where_eq_def)
  then obtain k r where w: "np_where_eq counts (Max (set counts)) = k # r"
    by (cases "np_where_eq counts (Max (set counts))") auto
  show ?thesis
    unfolding predominant_utm_unfold[OF nu] np_max_Max[OF cne] using w by simp
qed

lemma predominant_utm_first_max:
  assumes "predominant_utm ''UTM'' zones = Inr z"
  shows "z \<in> set zones"
    and "\<forall>z'\<in>set zones. count_list zones z' \<le> count_list zones z"
    and "\<forall>z'\<in>set zones. count_list zones z' = count_list zones z \<longrightarrow> z \<le> z'"
proof -
  obtain u counts where nu: "np_unique zones = (u, counts)" by (cases "np_unique zones")
  note p = np_unique_props[OF nu]
  note a = assms[unfolded predominant_utm_unfold[OF nu]]
  have cne: "counts \<noteq> []"
    using a by (auto simp: np_max_def)
  define m where "m = Max (set counts)"
  from a obtain i r where w: "np_where_eq counts m = i # r" and z: "z = u ! i"
    unfolding np_max_Max[OF cne] m_def by (auto split: list.splits)
  from first_index_upt[OF w[unfolded np_where_eq_def]]
  have i: "i < length counts" and ci: "counts ! i = m" and first: "\<forall>j<i. counts ! j \<noteq> m"
    by auto
  have lu: "length u = length counts" using p(4) by simp
  have "u ! i \<in> set u" using i lu by simp
  then show zin: "z \<in> set zones"
    using z p(3) by simp
  have "counts ! i = count_list zones (u ! i)"
    unfolding p(4) using i lu by simp
  then have cz: "count_list zones z = m"
    using ci z by simp
  have cnt: "count_list zones z' \<in> set counts" if "z' \<in> set zones" for z'
    using that p(3,4) by auto
  show "\<forall>z'\<in>set zones. count_list zones z' \<le> count_list zones z"
    using cnt cz m_def by (simp add: Max_ge)
  show "\<forall>z'\<in>set zones. count_list zones z' = count_list zones z \<longrightarrow> z \<le> z'"
  proof (intro ballI impI)
    fix z' assume z': "z' \<in> set zones" and eq: "count_list zones z' = count_list zones z"
    from z' p(3) have "z' \<in> set u" by simp
    then obtain j where j: "j < length u" and uj: "u ! j = z'"
      by (auto simp: in_set_conv_nth)
    have "counts ! j = count_list zones (u ! j)"
      unfolding p(4) using j by simp
    then have cj: "counts ! j = m"
      using uj eq cz by simp
    have "i \<le> j"
    proof (rule ccontr)
      assume "\<not> i \<le> j"
      then have "j < i" by simp
      with first have "counts ! j \<noteq> m" by blast
      with cj show False by simp
    qed
    then have "u ! i \<le> u ! j"
      using p(1) j by (rule_tac sorted_nth_mono)
    then show "z \<le> z'"
      using uj z by simp
  qed
qed

subsection \<open>Splitting and joining strings\<close>

lemma split_on_not_Nil [simp]: "split_on c s \<noteq> []"
  by (induction s) (auto split: list.splits)

lemma split_on_no_sep: "c \<notin> set s \<Longrightarrow> split_on c s = [s]"
  by (induction s) auto

lemma split_on_append_sep: "split_on c (a @ c # b) = split_on c a @ split_on c b"
proof (induction a)
  case Nil
  show ?case by simp
next
  case (Cons x a)
  show ?case
  proof (cases "x = c")
    case True
    with Cons show ?thesis by simp
  next
    case False
    obtain w ws where s: "split_on c a = w # ws"
      by (cases "split_on c a") auto
    with Cons False show ?thesis by simp
  qed
qed

lemma sh_words_append_space: "sh_words (a @ CHR '' '' # b) = sh_words a @ sh_words b"
  by (simp add: sh_words_def split_on_append_sep)

lemma sh_words_word: "CHR '' '' \<notin> set a \<Longrightarrow> a \<noteq> [] \<Longrightarrow> sh_words a = [a]"
  by (simp add: sh_words_def split_on_no_sep)

lemma sh_words_Nil [simp]: "sh_words [] = []"
  by (simp add: sh_words_def)

lemma sh_words_space_Cons [simp]: "sh_words (CHR '' '' # b) = sh_words b"
  by (simp add: sh_words_def)

lemma strip_no_space: "list_all (\<lambda>c. \<not> is_space c) p \<Longrightarrow> strip p = p"
proof -
  assume a: "list_all (\<lambda>c. \<not> is_space c) p"
  then have 1: "dropWhile is_space p = p"
    by (cases p) (auto simp: list_all_iff)
  from a have "list_all (\<lambda>c. \<not> is_space c) (rev p)" by (simp add: list_all_iff)
  then have 2: "dropWhile is_space (rev p) = rev p"
    by (cases "rev p") (auto simp: list_all_iff)
  show ?thesis by (simp add: strip_def 1 2)
qed

lemma no_space_char: "list_all (\<lambda>c. \<not> is_space c) p \<Longrightarrow> CHR '' '' \<notin> set p"
  by (auto simp: list_all_iff is_space_def)

lemma join_split_on: "join_on c (split_on c s) = s"
proof (induction s)
  case Nil
  show ?case by simp
next
  case (Cons x s)
  obtain w ws where sp: "split_on c s = w # ws"
    by (cases "split_on c s") auto
  show ?case
  proof (cases "x = c")
    case True
    with Cons sp show ?thesis by simp
  next
    case False
    with Cons sp show ?thesis by (cases ws) auto
  qed
qed

lemma set_join_on: "x \<in> set ws \<Longrightarrow> set x \<subseteq> set (join_on c ws)"
  by (induction c ws rule: join_on.induct) auto

lemma split_on_parts_subset: "x \<in> set (split_on c s) \<Longrightarrow> set x \<subseteq> set s"
  using set_join_on[of x "split_on c s" c] by (simp add: join_split_on)

lemma split_on_parts_no_sep: "x \<in> set (split_on c s) \<Longrightarrow> c \<notin> set x"
proof (induction s arbitrary: x)
  case Nil
  then show ?case by simp
next
  case (Cons y s)
  obtain w ws where sp: "split_on c s = w # ws"
    by (cases "split_on c s") auto
  show ?case
  proof (cases "y = c")
    case True
    with Cons show ?thesis by auto
  next
    case False
    with Cons.prems sp have "x = y # w \<or> x \<in> set ws" by auto
    then show ?thesis
      using Cons.IH[of w] Cons.IH[of x] sp False by auto
  qed
qed

lemma split_on_three:
  assumes "split_on c s = [a, b, d]"
  shows "s = a @ c # b @ c # d"
proof -
  have "join_on c (split_on c s) = s" by (rule join_split_on)
  then show ?thesis by (simp add: assms)
qed

subsection \<open>What a command line does to the files\<close>

lemma calls_write_file [simp]: "calls (write_file p c w) = calls w"
  by (simp add: write_file_def)

lemma calls_os_remove [simp]: "calls (os_remove p w) = calls w"
  by (simp add: os_remove_def)

lemma calls_fold_os_remove [simp]: "calls (fold os_remove ps w) = calls w"
  by (induction ps arbitrary: w) auto

lemma files_fold_os_remove: "files (fold os_remove ps w) = fold AList.delete ps (files w)"
  by (induction ps arbitrary: w) (auto simp: os_remove_def)

lemma calls_shell:
  "sh_words cmd \<noteq> [] \<Longrightarrow> calls (shell T cmd w) = calls w @ [sh_words cmd]"
  by (auto simp: shell_def Let_def split: list.splits option.splits if_splits)

lemma map_of_fold_delete:
  "map_of (fold AList.delete ps fs) p = (if p \<in> set ps then None else map_of fs p)"
  by (induction ps arbitrary: fs) (auto simp: delete_conv')

lemma shell_files_cases:
  assumes "sh_words cmd = prog # args"
  shows "files (shell T cmd w) = files w
       \<or> (\<exists>c i. i < length args \<and> files (shell T cmd w) = AList.update (args ! i) c (files w))
       \<or> files (shell T cmd w) = fold AList.delete args (files w)"
proof -
  consider (warp) "prog = ''gdalwarp''" | (merge) "prog = ''gdal_merge.py''"
    | (rm) "prog = ''rm''" | (other) "prog \<noteq> ''gdalwarp''" "prog \<noteq> ''gdal_merge.py''" "prog \<noteq> ''rm''"
    by blast
  then show ?thesis
  proof cases
    case warp
    show ?thesis
    proof (cases "length args = 7 \<and> gdalwarp T (prog # args) (files w) \<noteq> None")
      case True
      then obtain c where "gdalwarp T (prog # args) (files w) = Some c" by auto
      with True warp assms have "files (shell T cmd w) = AList.update (args ! 2) c (files w)"
        by (simp add: shell_def Let_def write_file_def)
      moreover from True have "2 < length args" by simp
      ultimately show ?thesis by blast
    next
      case False
      with warp assms have "files (shell T cmd w) = files w"
        by (auto simp: shell_def Let_def)
      then show ?thesis by simp
    qed
  next
    case merge
    show ?thesis
    proof (cases "2 \<le> length args \<and> gdal_merge T (prog # args) (files w) \<noteq> None")
      case True
      then obtain c where "gdal_merge T (prog # args) (files w) = Some c" by auto
      with True merge assms have "files (shell T cmd w) = AList.update (args ! 1) c (files w)"
        by (simp add: shell_def Let_def write_file_def)
      moreover from True have "1 < length args" by simp
      ultimately show ?thesis by blast
    next
      case False
      with merge assms have "files (shell T cmd w) = files w"
        by (auto simp: shell_def Let_def)
      then show ?thesis by simp
    qed
  next
    case rm
    with assms have "files (shell T cmd w) = fold AList.delete args (files w)"
      by (simp add: shell_def Let_def files_fold_os_remove)
    then show ?thesis by simp
  next
    case other
    with assms have "files (shell T cmd w) = files w"
      by (simp add: shell_def)
    then show ?thesis by simp
  qed
qed

lemma shell_frame:
  assumes "p \<notin> set (sh_words cmd)"
  shows "map_of (files (shell T cmd w)) p = map_of (files w) p"
proof (cases "sh_words cmd")
  case Nil
  then show ?thesis by (simp add: shell_def)
next
  case (Cons prog args)
  with assms have p: "p \<notin> set args" by auto
  from shell_files_cases[OF Cons, of T w] show ?thesis
  proof (elim disjE exE conjE)
    assume "files (shell T cmd w) = files w"
    then show ?thesis by simp
  next
    fix c i assume "i < length args" and f: "files (shell T cmd w) = AList.update (args ! i) c (files w)"
    then have "args ! i \<noteq> p" using p nth_mem by metis
    then show ?thesis by (simp add: f update_conv')
  next
    assume "files (shell T cmd w) = fold AList.delete args (files w)"
    then show ?thesis using p by (simp add: map_of_fold_delete)
  qed
qed

lemma sh_words_join_on:
  "\<forall>x\<in>set ws. x \<noteq> [] \<and> CHR '' '' \<notin> set x \<Longrightarrow> sh_words (join_on (CHR '' '') ws) = ws"
  by (induction "CHR '' ''" ws rule: join_on.induct)
     (simp_all add: sh_words_append_space sh_words_word)

lemma warp_cmd_join:
  "warp_cmd p n ty zn pr =
     join_on (CHR '' '') [''gdalwarp'', ''-overwrite'', ''rtc_products/'' @ p @ ''/'' @ n,
        ''rtc_products/'' @ p @ ''/r'' @ n] @ CHR '' '' # (''-s_srs '' @ ty @ '':'' @ zn @ '' -t_srs EPSG:'' @ pr)"
  by (simp add: warp_cmd_def)

lemma sh_words_warp_cmd:
  assumes "CHR '' '' \<notin> set p" "CHR '' '' \<notin> set n"
  shows "sh_words (warp_cmd p n ty zn pr) =
     [''gdalwarp'', ''-overwrite'', ''rtc_products/'' @ p @ ''/'' @ n, ''rtc_products/'' @ p @ ''/r'' @ n]
     @ sh_words (''-s_srs '' @ ty @ '':'' @ zn @ '' -t_srs EPSG:'' @ pr)"
  unfolding warp_cmd_join sh_words_append_space
  by (subst sh_words_join_on) (use assms in auto)

lemma sh_words_rm:
  assumes "CHR '' '' \<notin> set p" "p \<noteq> []"
  shows "sh_words (''rm '' @ p) = [''rm'', p]"
proof -
  have "''rm '' @ p = ''rm'' @ CHR '' '' # p" by simp
  then show ?thesis
    using assms by (simp only: sh_words_append_space sh_words_word) (simp add: sh_words_word)
qed

lemma shell_rm:
  assumes "CHR '' '' \<notin> set p" "p \<noteq> []"
  shows "files (shell T (''rm '' @ p) w) = AList.delete p (files w)"
    and "calls (shell T (''rm '' @ p) w) = calls w @ [[''rm'', p]]"
  using sh_words_rm[OF assms]
  by (simp_all add: shell_def Let_def os_remove_def)

lemma shell_gdalwarp:
  assumes "sh_words cmd = ''gdalwarp'' # args"
  shows "files (shell T cmd w) =
           (if length args = 7 then
              (case gdalwarp T (''gdalwarp'' # args) (files w) of
                 None \<Rightarrow> files w
               | Some c \<Rightarrow> AList.update (args ! 2) c (files w))
            else files w)"
    and "calls (shell T cmd w) = calls w @ [''gdalwarp'' # args]"
  using assms by (auto simp: shell_def Let_def write_file_def split: option.splits)

lemma shell_gdal_merge:
  assumes "sh_words cmd = ''gdal_merge.py'' # args"
  shows "files (shell T cmd w) =
           (if 2 \<le> length args then
              (case gdal_merge T (''gdal_merge.py'' # args) (files w) of
                 None \<Rightarrow> files w
               | Some c \<Rightarrow> AList.update (args ! 1) c (files w))
            else files w)"
    and "calls (shell T cmd w) = calls w @ [''gdal_merge.py'' # args]"
  using assms by (auto simp: shell_def Let_def write_file_def split: option.splits)

lemma path_exists_delete: "\<not> path_exists (w\<lparr>files := AList.delete p fs\<rparr>) p"
  by (simp add: path_exists_def delete_notin_dom)

lemma reproject_one_unfold:
  assumes "reproject_one T tiff_paths utm_types utm_zones predominant k w = Inr w'"
  obtains first product_name tiff_name where
    "k < length tiff_paths" "k < length utm_types" "k < length utm_zones"
    "split_on CHR ''/'' (strip (tiff_paths ! k)) = [first, product_name, tiff_name]"
    "w' = shell T (''rm '' @ strip (tiff_paths ! k))
            (shell T (warp_cmd product_name tiff_name (utm_types ! k) (utm_zones ! k) predominant) w)"
proof -
  from assms have k: "k < length tiff_paths"
    by (auto simp: reproject_one_def py_index_def split: if_splits)
  from assms k obtain first product_name tiff_name where
    sp: "split_on CHR ''/'' (strip (tiff_paths ! k)) = [first, product_name, tiff_name]"
    by (auto simp: reproject_one_def py_index_def split: list.splits)
  from assms k sp have kt: "k < length utm_types"
    by (auto simp: reproject_one_def py_index_def split: if_splits)
  from assms k sp kt have kz: "k < length utm_zones"
    by (auto simp: reproject_one_def py_index_def split: if_splits)
  from assms k sp kt kz have
    "w' = shell T (''rm '' @ strip (tiff_paths ! k))
            (shell T (warp_cmd product_name tiff_name (utm_types ! k) (utm_zones ! k) predominant) w)"
    by (simp add: reproject_one_def py_index_def)
  with k kt kz sp show ?thesis by (rule that)
qed

lemma split_on_path3:
  assumes "CHR ''/'' \<notin> set a" "CHR ''/'' \<notin> set b" "CHR ''/'' \<notin> set d"
  shows "split_on CHR ''/'' (a @ CHR ''/'' # b @ CHR ''/'' # d) = [a, b, d]"
  using assms by (simp add: split_on_append_sep split_on_no_sep)

text \<open>
  C4, as the code has it.  For a file that is not in the target system (and whose path
  holds no whitespace) the loop body runs gdalwarp and then \<open>rm\<close> on the original, in
  that order and whatever gdalwarp did: afterwards the original is gone.  When gdalwarp
  succeeds the replacement \<open>r<name>\<close> exists beside it; when gdalwarp fails, or the
  command line is not the eight words it expects, the files are those before the step
  minus the original.
\<close>

theorem reproject_one_removes_original:
  assumes ret: "reproject_one T tiff_paths utm_types utm_zones predominant k w = Inr w'"
    and nosp: "list_all (\<lambda>c. \<not> is_space c) (tiff_paths ! k)"
  shows "\<exists>first product_name tiff_name argv.
           tiff_paths ! k = first @ ''/'' @ product_name @ ''/'' @ tiff_name \<and>
           argv = sh_words (warp_cmd product_name tiff_name (utm_types ! k) (utm_zones ! k) predominant) \<and>
           take 4 argv = [''gdalwarp'', ''-overwrite'',
                          ''rtc_products/'' @ product_name @ ''/'' @ tiff_name,
                          ''rtc_products/'' @ product_name @ ''/r'' @ tiff_name] \<and>
           calls w' = calls w @ [argv, [''rm'', tiff_paths ! k]] \<and>
           \<not> path_exists w' (tiff_paths ! k) \<and>
           (length argv \<noteq> 8 \<or> gdalwarp T argv (files w) = None \<longrightarrow>
              files w' = AList.delete (tiff_paths ! k) (files w)) \<and>
           (\<forall>c. length argv = 8 \<and> gdalwarp T argv (files w) = Some c \<longrightarrow>
              map_of (files w') (''rtc_products/'' @ product_name @ ''/r'' @ tiff_name) = Some c)"
proof -
  let ?tp = "tiff_paths ! k"
  have st: "strip ?tp = ?tp" by (rule strip_no_space[OF nosp])
  have sp: "CHR '' '' \<notin> set ?tp" by (rule no_space_char[OF nosp])
  from reproject_one_unfold[OF ret] obtain first p n where
    split: "split_on CHR ''/'' ?tp = [first, p, n]" and
    w': "w' = shell T (''rm '' @ ?tp) (shell T (warp_cmd p n (utm_types ! k) (utm_zones ! k) predominant) w)"
    unfolding st by blast
  let ?cmd = "warp_cmd p n (utm_types ! k) (utm_zones ! k) predominant"
  let ?w1 = "shell T ?cmd w"
  let ?dst = "''rtc_products/'' @ p @ ''/r'' @ n"
  have tp: "?tp = first @ ''/'' @ p @ ''/'' @ n"
    using split_on_three[OF split] by simp
  then have ne: "?tp \<noteq> []" by simp
  have parts: "p \<in> set (split_on CHR ''/'' ?tp)" "n \<in> set (split_on CHR ''/'' ?tp)"
    by (simp_all add: split)
  have spp: "CHR '' '' \<notin> set p" "CHR '' '' \<notin> set n"
    using split_on_parts_subset[OF parts(1)] split_on_parts_subset[OF parts(2)] sp by auto
  have slp: "CHR ''/'' \<notin> set p" "CHR ''/'' \<notin> set n"
    using split_on_parts_no_sep[OF parts(1)] split_on_parts_no_sep[OF parts(2)] by auto
  obtain rest where argv: "sh_words ?cmd = ''gdalwarp'' # ''-overwrite'' #
       (''rtc_products/'' @ p @ ''/'' @ n) # ?dst # rest"
    using sh_words_warp_cmd[OF spp] by simp
  let ?args = "''-overwrite'' # (''rtc_products/'' @ p @ ''/'' @ n) # ?dst # rest"
  note g = shell_gdalwarp[OF argv, of T w]
  have c1: "calls ?w1 = calls w @ [sh_words ?cmd]"
    using g(2) argv by simp
  have f': "files w' = AList.delete ?tp (files ?w1)"
    and c': "calls w' = calls ?w1 @ [[''rm'', ?tp]]"
    unfolding w' using shell_rm[OF sp ne] by auto
  have gone: "\<not> path_exists w' ?tp"
    by (simp add: path_exists_def f' delete_notin_dom)
  have "?dst = ''rtc_products'' @ CHR ''/'' # p @ CHR ''/'' # (CHR ''r'' # n)" by simp
  moreover have "split_on CHR ''/'' (''rtc_products'' @ CHR ''/'' # p @ CHR ''/'' # (CHR ''r'' # n))
      = [''rtc_products'', p, CHR ''r'' # n]"
    by (rule split_on_path3) (use slp in simp_all)
  ultimately have d3: "split_on CHR ''/'' ?dst = [''rtc_products'', p, CHR ''r'' # n]"
    by (simp only:)
  have neq: "?dst \<noteq> ?tp"
  proof
    assume "?dst = ?tp"
    then have "split_on CHR ''/'' ?dst = split_on CHR ''/'' ?tp" by (simp only:)
    then have "[''rtc_products'', p, CHR ''r'' # n] = [first, p, n]"
      by (simp only: d3 split)
    then show False by simp
  qed
  have len: "length (sh_words ?cmd) = 8 \<longleftrightarrow> length ?args = 7"
    by (simp add: argv)
  have fail: "files w' = AList.delete ?tp (files w)"
    if "length (sh_words ?cmd) \<noteq> 8 \<or> gdalwarp T (sh_words ?cmd) (files w) = None"
    using that g(1) f' len argv by (auto split: option.splits)
  have ok: "map_of (files w') ?dst = Some c"
    if "length (sh_words ?cmd) = 8 \<and> gdalwarp T (sh_words ?cmd) (files w) = Some c" for c
  proof -
    from that have "files ?w1 = AList.update ?dst c (files w)"
      using g(1) argv by simp
    then show ?thesis
      using neq by (simp add: f' delete_conv' update_conv')
  qed
  have t4: "take 4 (sh_words ?cmd) = [''gdalwarp'', ''-overwrite'',
        ''rtc_products/'' @ p @ ''/'' @ n, ?dst]"
    by (simp add: argv)
  have cc: "calls w' = calls w @ [sh_words ?cmd, [''rm'', ?tp]]"
    using c1 c' by simp
  have fail': "length (sh_words ?cmd) \<noteq> 8 \<or> gdalwarp T (sh_words ?cmd) (files w) = None \<longrightarrow>
      files w' = AList.delete ?tp (files w)"
    using fail by (rule impI)
  have ok': "\<forall>c. length (sh_words ?cmd) = 8 \<and> gdalwarp T (sh_words ?cmd) (files w) = Some c \<longrightarrow>
      map_of (files w') ?dst = Some c"
    using ok by (intro allI impI)
  show ?thesis
    apply (intro exI conjI)
          apply (rule tp)
         apply (rule refl)
        apply (rule t4)
       apply (rule cc)
      apply (rule gone)
     apply (rule fail')
    apply (rule ok')
    done
qed

theorem reproject_one_removes_original_witness:
  "reproject_one working_tools
     [''rtc_products/S1A_20210101T000000/S1A_20210101T000000_VV.tif''] [''EPSG''] [''32611''] ''32610'' 0
     \<lparr>files = [(''rtc_products/S1A_20210101T000000/S1A_20210101T000000_VV.tif'', Frame 0)], calls = []\<rparr>
   = Inr \<lparr>files = [(''rtc_products/S1A_20210101T000000/rS1A_20210101T000000_VV.tif'',
                     Warped (Frame 0) ''EPSG:32610'')],
          calls = [[''gdalwarp'', ''-overwrite'',
                    ''rtc_products/S1A_20210101T000000/S1A_20210101T000000_VV.tif'',
                    ''rtc_products/S1A_20210101T000000/rS1A_20210101T000000_VV.tif'',
                    ''-s_srs'', ''EPSG:32611'', ''-t_srs'', ''EPSG:32610''],
                   [''rm'', ''rtc_products/S1A_20210101T000000/S1A_20210101T000000_VV.tif'']]\<rparr> \<and>
   list_all (\<lambda>c. \<not> is_space c) ([''rtc_products/S1A_20210101T000000/S1A_20210101T000000_VV.tif''] ! 0) \<and>
   \<not> path_exists
       \<lparr>files = [(''rtc_products/S1A_20210101T000000/rS1A_20210101T000000_VV.tif'',
                     Warped (Frame 0) ''EPSG:32610'')],
          calls = [[''gdalwarp'', ''-overwrite'',
                    ''rtc_products/S1A_20210101T000000/S1A_20210101T000000_VV.tif'',
                    ''rtc_products/S1A_20210101T000000/rS1A_20210101T000000_VV.tif'',
                    ''-s_srs'', ''EPSG:32611'', ''-t_srs'', ''EPSG:32610''],
                   [''rm'', ''rtc_products/S1A_20210101T000000/S1A_20210101T000000_VV.tif'']]\<rparr>
       ([''rtc_products/S1A_20210101T000000/S1A_20210101T000000_VV.tif''] ! 0)"
proof -
  have r: "reproject_one working_tools
     [''rtc_products/S1A_20210101T000000/S1A_20210101T000000_VV.tif''] [''EPSG''] [''32611''] ''32610'' 0
     \<lparr>files = [(''rtc_products/S1A_20210101T000000/S1A_20210101T000000_VV.tif'', Frame 0)], calls = []\<rparr>
   = Inr \<lparr>files = [(''rtc_products/S1A_20210101T000000/rS1A_20210101T000000_VV.tif'',
                     Warped (Frame 0) ''EPSG:32610'')],
          calls = [[''gdalwarp'', ''-overwrite'',
                    ''rtc_products/S1A_20210101T000000/S1A_20210101T000000_VV.tif'',
                    ''rtc_products/S1A_20210101T000000/rS1A_20210101T000000_VV.tif'',
                    ''-s_srs'', ''EPSG:32611'', ''-t_srs'', ''EPSG:32610''],
                   [''rm'', ''rtc_products/S1A_20210101T000000/S1A_20210101T000000_VV.tif'']]\<rparr>"
    by code_simp
  have n: "list_all (\<lambda>c. \<not> is_space c) ([''rtc_products/S1A_20210101T000000/S1A_20210101T000000_VV.tif''] ! 0)"
    by code_simp
  from reproject_one_removes_original[OF r n] have
    "\<not> path_exists
       \<lparr>files = [(''rtc_products/S1A_20210101T000000/rS1A_20210101T000000_VV.tif'',
                     Warped (Frame 0) ''EPSG:32610'')],
          calls = [[''gdalwarp'', ''-overwrite'',
                    ''rtc_products/S1A_20210101T000000/S1A_20210101T000000_VV.tif'',
                    ''rtc_products/S1A_20210101T000000/rS1A_20210101T000000_VV.tif'',
                    ''-s_srs'', ''EPSG:32611'', ''-t_srs'', ''EPSG:32610''],
                   [''rm'', ''rtc_products/S1A_20210101T000000/S1A_20210101T000000_VV.tif'']]\<rparr>
       ([''rtc_products/S1A_20210101T000000/S1A_20210101T000000_VV.tif''] ! 0)"
    by (elim exE conjE)
  with r n show ?thesis by (intro conjI)
qed

text \<open>
  C4 as stated fails: with a gdalwarp that fails and writes nothing, the original is
  removed all the same and no raster is left.
\<close>

theorem reproject_one_failed_warp_counterexample:
  "reproject_one failing_tools
     [''rtc_products/S1A_20210101T000000/S1A_20210101T000000_VV.tif''] [''EPSG''] [''32611''] ''32610'' 0
     \<lparr>files = [(''rtc_products/S1A_20210101T000000/S1A_20210101T000000_VV.tif'', Frame 0)], calls = []\<rparr>
   = Inr \<lparr>files = [],
          calls = [[''gdalwarp'', ''-overwrite'',
                    ''rtc_products/S1A_20210101T000000/S1A_20210101T000000_VV.tif'',
                    ''rtc_products/S1A_20210101T000000/rS1A_20210101T000000_VV.tif'',
                    ''-s_srs'', ''EPSG:32611'', ''-t_srs'', ''EPSG:32610''],
                   [''rm'', ''rtc_products/S1A_20210101T000000/S1A_20210101T000000_VV.tif'']]\<rparr>"
  by code_simp

subsection \<open>The target of the Coordinate Normalizer (cells 47 to 51)\<close>

lemma count_zip_le:
  "length ts = length zs \<Longrightarrow> count_list (zip ts zs) (a, c) \<le> count_list zs c"
  by (induction ts zs rule: list_induct2) auto

lemma count_zip_determined:
  "length ts = length zs \<Longrightarrow> \<forall>i<length zs. zs ! i = c \<longrightarrow> ts ! i = a \<Longrightarrow>
     count_list (zip ts zs) (a, c) = count_list zs c"
proof (induction ts zs rule: list_induct2)
  case Nil
  then show ?case by simp
next
  case (Cons t ts z zs)
  from Cons.prems have hd: "z = c \<longrightarrow> t = a"
    by (auto elim: allE[of _ 0])
  from Cons.prems have "\<forall>i<length zs. zs ! i = c \<longrightarrow> ts ! i = a"
    by (auto elim: allE[of _ "Suc i" for i])
  from Cons.IH[OF this] hd show ?case by auto
qed

lemma warp_cmd_target:
  "suffix ('' -t_srs EPSG:'' @ z) (warp_cmd product_name tiff_name utm_type utm_zone z)"
  unfolding warp_cmd_def suffix_def by (rule exI[of _ "''gdalwarp -overwrite rtc_products/'' @ product_name @ ''/'' @ tiff_name @
     '' rtc_products/'' @ product_name @ ''/r'' @ tiff_name @
     '' -s_srs '' @ utm_type @ '':'' @ utm_zone"]) simp

lemma warp_cmd_last_word:
  assumes "CHR '' '' \<notin> set z"
  shows "last (sh_words (warp_cmd product_name tiff_name utm_type utm_zone z)) = ''EPSG:'' @ z"
proof -
  let ?a = "''gdalwarp -overwrite rtc_products/'' @ product_name @ ''/'' @ tiff_name @
     '' rtc_products/'' @ product_name @ ''/r'' @ tiff_name @
     '' -s_srs '' @ utm_type @ '':'' @ utm_zone @ '' -t_srs''"
  have "warp_cmd product_name tiff_name utm_type utm_zone z = ?a @ CHR '' '' # (''EPSG:'' @ z)"
    by (simp add: warp_cmd_def)
  then have "sh_words (warp_cmd product_name tiff_name utm_type utm_zone z) =
      sh_words ?a @ sh_words (''EPSG:'' @ z)"
    by (simp only: sh_words_append_space)
  moreover have "sh_words (''EPSG:'' @ z) = [''EPSG:'' @ z]"
    using assms by (intro sh_words_word) auto
  ultimately show ?thesis by simp
qed


lemma sorted_distinct_nth_less:
  assumes "sorted u" "distinct u" "j < i" "i < length u"
  shows "u ! j < u ! i"
proof -
  from assms have "u ! j \<le> u ! i" by (simp add: sorted_nth_mono)
  moreover from assms have "u ! j \<noteq> u ! i" by (simp add: nth_eq_iff_index_eq)
  ultimately show ?thesis by simp
qed

text \<open>
  C3, as the code has it.  In UTM mode the target is chosen by tallying the zone codes
  alone: for a non-empty list of codes the cell returns a code of the list with the
  maximal number of occurrences, the first such code in the ascending enumeration of
  \<open>np.unique\<close>, so the least one.  The warp command of cell 51 names the target as
  \<open>EPSG:\<close> followed by that code, whatever authority the files carry.  When no code
  occurs under two authorities, the tally per code is the tally per (authority, code)
  pair, and the selected code with the authority of its files is a pair with the
  maximal count.
\<close>

theorem predominant_utm_code_majority:
  assumes "utm_zones \<noteq> []"
  shows "\<exists>z. predominant_utm ''UTM'' utm_zones = Inr z \<and> z \<in> set utm_zones \<and>
           (\<forall>z'\<in>set utm_zones. count_list utm_zones z' \<le> count_list utm_zones z) \<and>
           (\<forall>z'\<in>set utm_zones. count_list utm_zones z' = count_list utm_zones z \<longrightarrow> z \<le> z') \<and>
           sorted (fst (np_unique utm_zones)) \<and> distinct (fst (np_unique utm_zones)) \<and>
           set (fst (np_unique utm_zones)) = set utm_zones \<and>
           (\<exists>i<length (fst (np_unique utm_zones)). fst (np_unique utm_zones) ! i = z \<and>
              (\<forall>j<i. count_list utm_zones (fst (np_unique utm_zones) ! j) < count_list utm_zones z)) \<and>
           (\<forall>product_name tiff_name utm_type utm_zone.
              suffix ('' -t_srs EPSG:'' @ z) (warp_cmd product_name tiff_name utm_type utm_zone z) \<and>
              (CHR '' '' \<notin> set z \<longrightarrow>
                 last (sh_words (warp_cmd product_name tiff_name utm_type utm_zone z)) = ''EPSG:'' @ z)) \<and>
           (length utm_types = length utm_zones \<and>
            (\<forall>i<length utm_zones. \<forall>j<length utm_zones.
               utm_zones ! i = utm_zones ! j \<longrightarrow> utm_types ! i = utm_types ! j) \<longrightarrow>
              (\<forall>k<length utm_zones.
                 count_list (zip utm_types utm_zones) (utm_types ! k, utm_zones ! k) =
                 count_list utm_zones (utm_zones ! k)) \<and>
              (\<exists>k<length utm_zones. utm_zones ! k = z \<and>
                 pair_tally_majority (zip utm_types utm_zones) (utm_types ! k, z)))"
proof -
  from predominant_utm_total[OF assms] obtain z where z: "predominant_utm ''UTM'' utm_zones = Inr z"
    by (rule exE)
  note fm = predominant_utm_first_max[OF z]
  obtain u counts where nu: "np_unique utm_zones = (u, counts)" by (cases "np_unique utm_zones")
  note p = np_unique_props[OF nu]
  have u: "fst (np_unique utm_zones) = u" by (simp add: nu)
  from fm(1) p(3) have "z \<in> set u" by simp
  then obtain i where i: "i < length u" and ui: "u ! i = z"
    by (auto simp: in_set_conv_nth)
  have first: "count_list utm_zones (u ! j) < count_list utm_zones z" if "j < i" for j
  proof -
    from that i have ju: "u ! j \<in> set u" by simp
    then have jz: "u ! j \<in> set utm_zones" by (simp only: p(3))
    from sorted_distinct_nth_less[OF p(1) p(2) that i] have lt: "u ! j < z" by (simp only: ui)
    from fm(2) jz have le: "count_list utm_zones (u ! j) \<le> count_list utm_zones z" by (rule bspec)
    have "count_list utm_zones (u ! j) \<noteq> count_list utm_zones z"
    proof
      assume "count_list utm_zones (u ! j) = count_list utm_zones z"
      with fm(3) jz have "z \<le> u ! j" by blast
      with lt show False by simp
    qed
    with le show ?thesis by simp
  qed
  have enum: "\<exists>i<length u. u ! i = z \<and> (\<forall>j<i. count_list utm_zones (u ! j) < count_list utm_zones z)"
    using i ui first by blast
  have cmd: "\<forall>product_name tiff_name utm_type utm_zone.
              suffix ('' -t_srs EPSG:'' @ z) (warp_cmd product_name tiff_name utm_type utm_zone z) \<and>
              (CHR '' '' \<notin> set z \<longrightarrow>
                 last (sh_words (warp_cmd product_name tiff_name utm_type utm_zone z)) = ''EPSG:'' @ z)"
    by (intro allI conjI impI warp_cmd_target warp_cmd_last_word)
  have pairs: "(\<forall>k<length utm_zones.
                 count_list (zip utm_types utm_zones) (utm_types ! k, utm_zones ! k) =
                 count_list utm_zones (utm_zones ! k)) \<and>
              (\<exists>k<length utm_zones. utm_zones ! k = z \<and>
                 pair_tally_majority (zip utm_types utm_zones) (utm_types ! k, z))"
    if len: "length utm_types = length utm_zones"
      and det: "\<forall>i<length utm_zones. \<forall>j<length utm_zones.
               utm_zones ! i = utm_zones ! j \<longrightarrow> utm_types ! i = utm_types ! j"
  proof -
    have eq: "count_list (zip utm_types utm_zones) (utm_types ! k, utm_zones ! k) =
                 count_list utm_zones (utm_zones ! k)" if k: "k < length utm_zones" for k
    proof (rule count_zip_determined[OF len])
      show "\<forall>i<length utm_zones. utm_zones ! i = utm_zones ! k \<longrightarrow> utm_types ! i = utm_types ! k"
        using det k by blast
    qed
    from fm(1) obtain k where k: "k < length utm_zones" and zk: "utm_zones ! k = z"
      by (auto simp: in_set_conv_nth)
    have mem: "(utm_types ! k, z) \<in> set (zip utm_types utm_zones)"
      using k zk len by (auto simp: in_set_zip intro: exI[of _ k])
    have cz: "count_list (zip utm_types utm_zones) (utm_types ! k, z) = count_list utm_zones z"
      using eq[OF k] by (simp only: zk)
    have "count_list (zip utm_types utm_zones) q \<le> count_list (zip utm_types utm_zones) (utm_types ! k, z)"
      if q: "q \<in> set (zip utm_types utm_zones)" for q
    proof -
      obtain t' z' where qq: "q = (t', z')" by (cases q)
      from q qq have "z' \<in> set utm_zones" by (auto dest: set_zip_rightD)
      with fm(2) have "count_list utm_zones z' \<le> count_list utm_zones z" by (rule bspec)
      moreover have "count_list (zip utm_types utm_zones) (t', z') \<le> count_list utm_zones z'"
        by (rule count_zip_le[OF len])
      ultimately show ?thesis by (simp add: qq cz)
    qed
    then have "pair_tally_majority (zip utm_types utm_zones) (utm_types ! k, z)"
      using mem by (simp add: pair_tally_majority_def list_all_iff)
    with k zk eq show ?thesis by blast
  qed
  show ?thesis
    apply (rule exI[of _ z])
    apply (intro conjI)
             apply (rule z)
            apply (rule fm(1))
           apply (rule fm(2))
          apply (rule fm(3))
         apply (simp only: u p(1))
        apply (simp only: u p(2))
       apply (simp only: u p(3))
      apply (simp only: u enum)
     apply (rule cmd)
    apply (rule impI)
    apply (erule conjE)
    apply (erule (1) pairs)
    done
qed

theorem predominant_utm_code_majority_witness:
  "[''32611'', ''32610'', ''32611'', ''32610''] \<noteq> ([] :: string list) \<and>
   length [''EPSG'', ''EPSG'', ''EPSG'', ''EPSG''] = length [''32611'', ''32610'', ''32611'', ''32610''] \<and>
   CHR '' '' \<notin> set ''32610'' \<and>
   predominant_utm ''UTM'' [''32611'', ''32610'', ''32611'', ''32610''] = Inr ''32610'' \<and>
   last (sh_words (warp_cmd ''P1'' ''S1_20210101T000000_VV.tif'' ''EPSG'' ''32611'' ''32610'')) = ''EPSG:32610'' \<and>
   count_list (zip [''EPSG'', ''EPSG'', ''EPSG'', ''EPSG''] [''32611'', ''32610'', ''32611'', ''32610''])
     (''EPSG'', ''32610'') = count_list [''32611'', ''32610'', ''32611'', ''32610''] ''32610'' \<and>
   pair_tally_majority (zip [''EPSG'', ''EPSG'', ''EPSG'', ''EPSG''] [''32611'', ''32610'', ''32611'', ''32610''])
     (''EPSG'', ''32610'')"
proof -
  let ?zs = "[''32611'', ''32610'', ''32611'', ''32610'']"
  let ?ts = "[''EPSG'', ''EPSG'', ''EPSG'', ''EPSG'']"
  have ne: "?zs \<noteq> ([] :: string list)" by simp
  have len: "length ?ts = length ?zs" by simp
  have sp: "CHR '' '' \<notin> set ''32610''" by simp
  have ev: "predominant_utm ''UTM'' ?zs = Inr ''32610''" by code_simp
  have det: "\<forall>i<length ?zs. \<forall>j<length ?zs. ?zs ! i = ?zs ! j \<longrightarrow> ?ts ! i = ?ts ! j"
    by (simp add: nth_Cons split: nat.splits)
  from predominant_utm_code_majority[OF ne, of ?ts] obtain z where
    z: "predominant_utm ''UTM'' ?zs = Inr z" and
    cmd: "\<forall>product_name tiff_name utm_type utm_zone.
              suffix ('' -t_srs EPSG:'' @ z) (warp_cmd product_name tiff_name utm_type utm_zone z) \<and>
              (CHR '' '' \<notin> set z \<longrightarrow>
                 last (sh_words (warp_cmd product_name tiff_name utm_type utm_zone z)) = ''EPSG:'' @ z)" and
    pr: "length ?ts = length ?zs \<and>
            (\<forall>i<length ?zs. \<forall>j<length ?zs. ?zs ! i = ?zs ! j \<longrightarrow> ?ts ! i = ?ts ! j) \<longrightarrow>
              (\<forall>k<length ?zs.
                 count_list (zip ?ts ?zs) (?ts ! k, ?zs ! k) = count_list ?zs (?zs ! k)) \<and>
              (\<exists>k<length ?zs. ?zs ! k = z \<and> pair_tally_majority (zip ?ts ?zs) (?ts ! k, z))"
    by (elim exE conjE)
  from z ev have zz: "z = ''32610''" by simp
  from cmd sp have w: "last (sh_words (warp_cmd ''P1'' ''S1_20210101T000000_VV.tif'' ''EPSG'' ''32611'' ''32610'')) = ''EPSG:32610''"
    unfolding zz by simp
  from pr len det have
    c: "\<forall>k<length ?zs. count_list (zip ?ts ?zs) (?ts ! k, ?zs ! k) = count_list ?zs (?zs ! k)" and
    m: "\<exists>k<length ?zs. ?zs ! k = z \<and> pair_tally_majority (zip ?ts ?zs) (?ts ! k, z)"
    by blast+
  from c have c1: "count_list (zip ?ts ?zs) (''EPSG'', ''32610'') = count_list ?zs ''32610''"
    by (elim allE[of _ 1]) simp
  from m obtain k where "k < length ?zs" and pm: "pair_tally_majority (zip ?ts ?zs) (?ts ! k, z)"
    by blast
  then have "?ts ! k = ''EPSG''" by (simp add: nth_Cons split: nat.splits)
  with pm have m1: "pair_tally_majority (zip ?ts ?zs) (''EPSG'', ''32610'')"
    by (simp only: zz)
  show ?thesis
    by (intro conjI) (rule ne, rule len, rule sp, rule ev, rule w, rule c1, rule m1)
qed

text \<open>
  C3 as stated fails.  Cell 47 reads the authority and the code of a product from the
  last \<open>ID\<close> of its WKT text.  Of three products, two are in ESRI:102008 and one in
  EPSG:32610: the pair with the maximal count is (ESRI, 102008), and the third product
  is warped to EPSG:102008.  Of seven products, three are in EPSG:32611 and two each
  in EPSG:32610 and ESRI:32610: the pair with the maximal count is (EPSG, 32611), and
  the cell selects 32610, the code of no majority pair.
\<close>

theorem predominant_utm_pair_counterexample:
  "utm_zones_types
     [projcrs_wkt ''North_America_Albers_Equal_Area_Conic'' ''ESRI'' ''102008'',
      projcrs_wkt ''North_America_Albers_Equal_Area_Conic'' ''ESRI'' ''102008'',
      projcrs_wkt ''WGS 84 / UTM zone 10N'' ''EPSG'' ''32610''] =
     Inr ([''102008'', ''102008'', ''32610''], [''ESRI'', ''ESRI'', ''EPSG'']) \<and>
   predominant_utm ''UTM'' [''102008'', ''102008'', ''32610''] = Inr ''102008'' \<and>
   pair_tally_majority (zip [''ESRI'', ''ESRI'', ''EPSG''] [''102008'', ''102008'', ''32610''])
     (''ESRI'', ''102008'') \<and>
   \<not> pair_tally_majority (zip [''ESRI'', ''ESRI'', ''EPSG''] [''102008'', ''102008'', ''32610''])
     (''EPSG'', ''102008'') \<and>
   map_sum id calls
     (coordinate_normalizer working_tools ''UTM''
        (map fst (files three_products)) [''ESRI'', ''ESRI'', ''EPSG''] [''102008'', ''102008'', ''32610'']
        three_products) =
     Inr [[''gdalwarp'', ''-overwrite'', ''rtc_products/P3/S1_20210125T000000_VV.tif'',
           ''rtc_products/P3/rS1_20210125T000000_VV.tif'', ''-s_srs'', ''EPSG:32610'',
           ''-t_srs'', ''EPSG:102008''],
          [''rm'', ''rtc_products/P3/S1_20210125T000000_VV.tif'']] \<and>
   utm_zones_types
     [projcrs_wkt ''WGS 84 / UTM zone 10N'' ''EPSG'' ''32610'',
      projcrs_wkt ''WGS 84 / UTM zone 10N'' ''EPSG'' ''32610'',
      projcrs_wkt ''WGS_1984_UTM_Zone_10N'' ''ESRI'' ''32610'',
      projcrs_wkt ''WGS_1984_UTM_Zone_10N'' ''ESRI'' ''32610'',
      projcrs_wkt ''WGS 84 / UTM zone 11N'' ''EPSG'' ''32611'',
      projcrs_wkt ''WGS 84 / UTM zone 11N'' ''EPSG'' ''32611'',
      projcrs_wkt ''WGS 84 / UTM zone 11N'' ''EPSG'' ''32611''] =
     Inr ([''32610'', ''32610'', ''32610'', ''32610'', ''32611'', ''32611'', ''32611''],
          [''EPSG'', ''EPSG'', ''ESRI'', ''ESRI'', ''EPSG'', ''EPSG'', ''EPSG'']) \<and>
   predominant_utm ''UTM'' [''32610'', ''32610'', ''32610'', ''32610'', ''32611'', ''32611'', ''32611''] =
     Inr ''32610'' \<and>
   pair_tally_majority
     (zip [''EPSG'', ''EPSG'', ''ESRI'', ''ESRI'', ''EPSG'', ''EPSG'', ''EPSG'']
          [''32610'', ''32610'', ''32610'', ''32610'', ''32611'', ''32611'', ''32611''])
     (''EPSG'', ''32611'') \<and>
   \<not> pair_tally_majority
     (zip [''EPSG'', ''EPSG'', ''ESRI'', ''ESRI'', ''EPSG'', ''EPSG'', ''EPSG'']
          [''32610'', ''32610'', ''32610'', ''32610'', ''32611'', ''32611'', ''32611''])
     (''EPSG'', ''32610'') \<and>
   \<not> pair_tally_majority
     (zip [''EPSG'', ''EPSG'', ''ESRI'', ''ESRI'', ''EPSG'', ''EPSG'', ''EPSG'']
          [''32610'', ''32610'', ''32610'', ''32610'', ''32611'', ''32611'', ''32611''])
     (''ESRI'', ''32610'')"
  by code_simp

subsection \<open>The Coordinate Normalizer as a whole\<close>

lemma sh_words_gdalwarp_head: "\<exists>args. sh_words (warp_cmd p n ty zn pr) = ''gdalwarp'' # args"
proof -
  have "warp_cmd p n ty zn pr = ''gdalwarp'' @ CHR '' '' # (''-overwrite rtc_products/'' @ p @ ''/'' @ n @
     '' rtc_products/'' @ p @ ''/r'' @ n @
     '' -s_srs '' @ ty @ '':'' @ zn @ '' -t_srs EPSG:'' @ pr)"
    by (simp add: warp_cmd_def)
  then have "sh_words (warp_cmd p n ty zn pr) = sh_words ''gdalwarp'' @ sh_words (''-overwrite rtc_products/'' @ p @ ''/'' @ n @
     '' rtc_products/'' @ p @ ''/r'' @ n @
     '' -s_srs '' @ ty @ '':'' @ zn @ '' -t_srs EPSG:'' @ pr)"
    by (simp only: sh_words_append_space)
  moreover have "sh_words ''gdalwarp'' = [''gdalwarp'']"
    by (rule sh_words_word) simp_all
  ultimately show ?thesis by simp
qed

lemma sh_words_rm_head: "sh_words (''rm '' @ x) = ''rm'' # sh_words x"
proof -
  have "''rm '' @ x = ''rm'' @ CHR '' '' # x" by simp
  then have "sh_words (''rm '' @ x) = sh_words ''rm'' @ sh_words x"
    by (simp only: sh_words_append_space)
  moreover have "sh_words ''rm'' = [''rm'']"
    by (rule sh_words_word) simp_all
  ultimately show ?thesis by simp
qed

lemma reproject_one_fold:
  assumes "reproject_one T tiff_paths utm_types utm_zones predominant k w = Inr w'"
  shows "w' = fold (shell T) (reproject_cmds tiff_paths utm_types utm_zones predominant k) w"
    and "\<forall>cmd \<in> set (reproject_cmds tiff_paths utm_types utm_zones predominant k). sh_words cmd \<noteq> []"
proof -
  from reproject_one_unfold[OF assms] obtain first p n where
    sp: "split_on CHR ''/'' (strip (tiff_paths ! k)) = [first, p, n]" and
    w': "w' = shell T (''rm '' @ strip (tiff_paths ! k))
            (shell T (warp_cmd p n (utm_types ! k) (utm_zones ! k) predominant) w)"
    by blast
  have rc: "reproject_cmds tiff_paths utm_types utm_zones predominant k =
      [warp_cmd p n (utm_types ! k) (utm_zones ! k) predominant, ''rm '' @ strip (tiff_paths ! k)]"
    by (simp add: reproject_cmds_def sp)
  show "w' = fold (shell T) (reproject_cmds tiff_paths utm_types utm_zones predominant k) w"
    by (simp add: rc w')
  have "sh_words (''rm '' @ strip (tiff_paths ! k)) \<noteq> []"
    by (simp only: sh_words_rm_head) simp
  moreover have "sh_words (warp_cmd p n (utm_types ! k) (utm_zones ! k) predominant) \<noteq> []"
    using sh_words_gdalwarp_head[of p n "utm_types ! k" "utm_zones ! k" predominant] by auto
  ultimately show "\<forall>cmd \<in> set (reproject_cmds tiff_paths utm_types utm_zones predominant k). sh_words cmd \<noteq> []"
    unfolding rc by (simp del: append.simps)
qed

lemma reproject_all_fold:
  assumes "reproject_all T tiff_paths utm_types utm_zones predominant ks w = Inr w'"
  shows "w' = fold (shell T) (concat (map (reproject_cmds tiff_paths utm_types utm_zones predominant) ks)) w
       \<and> (\<forall>cmd \<in> set (concat (map (reproject_cmds tiff_paths utm_types utm_zones predominant) ks)).
            sh_words cmd \<noteq> [])"
  using assms
proof (induction ks arbitrary: w)
  case Nil
  then show ?case by simp
next
  case (Cons k ks)
  from Cons.prems obtain w1 where
    one: "reproject_one T tiff_paths utm_types utm_zones predominant k w = Inr w1" and
    rest: "reproject_all T tiff_paths utm_types utm_zones predominant ks w1 = Inr w'"
    by (auto split: sum.splits)
  from reproject_one_fold[OF one] Cons.IH[OF rest] show ?case by auto
qed

lemma fold_shell_calls:
  "\<forall>cmd \<in> set cmds. sh_words cmd \<noteq> [] \<Longrightarrow>
     calls (fold (shell T) cmds w) = calls w @ map sh_words cmds"
  by (induction cmds arbitrary: w) (simp_all add: calls_shell)

lemma fold_shell_frame:
  "\<forall>cmd \<in> set cmds. p \<notin> set (sh_words cmd) \<Longrightarrow>
     map_of (files (fold (shell T) cmds w)) p = map_of (files w) p"
  by (induction cmds arbitrary: w) (simp_all add: shell_frame)

lemma predominant_utm_single:
  assumes "set utm_zones = {z}"
  shows "predominant_utm ''UTM'' utm_zones = Inr z"
proof -
  have "utm_zones \<noteq> []"
  proof
    assume "utm_zones = []"
    then have "set utm_zones = {}" by simp
    with assms show False by simp
  qed
  from predominant_utm_total[OF this] obtain z' where z': "predominant_utm ''UTM'' utm_zones = Inr z'"
    by (rule exE)
  from predominant_utm_first_max(1)[OF z'] have "z' \<in> {z}" unfolding assms .
  then have "z' = z" by (rule singletonD)
  then show ?thesis by (simp only: z')
qed

lemma reproject_indicies_none:
  "set utm_zones \<subseteq> {t} \<Longrightarrow> reproject_indicies utm_zones t = []"
proof -
  assume a: "set utm_zones \<subseteq> {t}"
  have "utm_zones ! i = t" if "i < length utm_zones" for i
    using a nth_mem[OF that] by auto
  then show ?thesis
    by (simp add: reproject_indicies_def filter_empty_conv)
qed

text \<open>
  C6, as the code has it.  The target is the predominant zone code in UTM mode and 4326
  otherwise.  The commands that the Normalizer runs are exactly the gdalwarp and \<open>rm\<close>
  of the files whose zone code differs from the target, in the order of the list; every
  file that none of these commands names is left with the content it had.  In UTM mode,
  when all files carry one zone code, nothing is run and the files are unchanged.
\<close>

theorem coordinate_normalizer_reprojects_other_codes:
  "(coordinate_normalizer T coord_choice tiff_paths utm_types utm_zones w = Inr w' \<longrightarrow>
      (\<exists>target. predominant_utm coord_choice utm_zones = Inr target \<and>
         (coord_choice \<noteq> ''UTM'' \<longrightarrow> target = ''4326'') \<and>
         calls w' = calls w @ map sh_words (concat (map (reproject_cmds tiff_paths utm_types utm_zones target)
                       [k \<leftarrow> [0..<length utm_zones]. utm_zones ! k \<noteq> target])) \<and>
         (\<forall>p. (\<forall>argv \<in> set (drop (length (calls w)) (calls w')). p \<notin> set argv) \<longrightarrow>
                map_of (files w') p = map_of (files w) p))) \<and>
   (set utm_zones = {z} \<longrightarrow>
      coordinate_normalizer T ''UTM'' tiff_paths utm_types utm_zones w = Inr w)"
proof (intro conjI impI)
  assume ret: "coordinate_normalizer T coord_choice tiff_paths utm_types utm_zones w = Inr w'"
  then obtain target where
    t: "predominant_utm coord_choice utm_zones = Inr target" and
    all: "reproject_all T tiff_paths utm_types utm_zones target (reproject_indicies utm_zones target) w = Inr w'"
    by (auto simp: coordinate_normalizer_def split: sum.splits)
  let ?cmds = "concat (map (reproject_cmds tiff_paths utm_types utm_zones target)
                       [k \<leftarrow> [0..<length utm_zones]. utm_zones ! k \<noteq> target])"
  from reproject_all_fold[OF all] have w': "w' = fold (shell T) ?cmds w"
    and ne: "\<forall>cmd \<in> set ?cmds. sh_words cmd \<noteq> []"
    by (simp_all add: reproject_indicies_def)
  have c: "calls w' = calls w @ map sh_words ?cmds"
    unfolding w' by (rule fold_shell_calls[OF ne])
  have ll: "coord_choice \<noteq> ''UTM'' \<Longrightarrow> target = ''4326''"
    using t by (simp add: predominant_utm_def)
  have fr: "map_of (files w') p = map_of (files w) p"
    if "\<forall>argv \<in> set (drop (length (calls w)) (calls w')). p \<notin> set argv" for p
  proof -
    from that have "\<forall>cmd \<in> set ?cmds. p \<notin> set (sh_words cmd)"
      by (simp add: c)
    then show ?thesis unfolding w' by (rule fold_shell_frame)
  qed
  from ll fr show "\<exists>target. predominant_utm coord_choice utm_zones = Inr target \<and>
         (coord_choice \<noteq> ''UTM'' \<longrightarrow> target = ''4326'') \<and>
         calls w' = calls w @ map sh_words (concat (map (reproject_cmds tiff_paths utm_types utm_zones target)
                       [k \<leftarrow> [0..<length utm_zones]. utm_zones ! k \<noteq> target])) \<and>
         (\<forall>p. (\<forall>argv \<in> set (drop (length (calls w)) (calls w')). p \<notin> set argv) \<longrightarrow>
                map_of (files w') p = map_of (files w) p)"
    apply (intro exI conjI allI impI)
       apply (rule t)
      apply assumption
     apply (rule c)
    apply assumption
    done
next
  assume single: "set utm_zones = {z}"
  have "reproject_indicies utm_zones z = []"
    by (rule reproject_indicies_none) (simp add: single)
  then show "coordinate_normalizer T ''UTM'' tiff_paths utm_types utm_zones w = Inr w"
    by (simp add: coordinate_normalizer_def predominant_utm_single[OF single])
qed

theorem coordinate_normalizer_reprojects_other_codes_witness:
  "coordinate_normalizer working_tools ''UTM''
     [''rtc_products/A_20210101T000000/A_20210101T000000_VV.tif'',
      ''rtc_products/B_20210113T000000/B_20210113T000000_VV.tif'',
      ''rtc_products/C_20210125T000000/C_20210125T000000_VV.tif'']
     [''EPSG'', ''EPSG'', ''EPSG''] [''32610'', ''32611'', ''32610'']
     \<lparr>files = [(''rtc_products/A_20210101T000000/A_20210101T000000_VV.tif'', Frame 0),
               (''rtc_products/B_20210113T000000/B_20210113T000000_VV.tif'', Frame 1),
               (''rtc_products/C_20210125T000000/C_20210125T000000_VV.tif'', Frame 2)], calls = []\<rparr>
   = Inr \<lparr>files = [(''rtc_products/A_20210101T000000/A_20210101T000000_VV.tif'', Frame 0),
                    (''rtc_products/C_20210125T000000/C_20210125T000000_VV.tif'', Frame 2),
                    (''rtc_products/B_20210113T000000/rB_20210113T000000_VV.tif'',
                     Warped (Frame 1) ''EPSG:32610'')],
          calls = [[''gdalwarp'', ''-overwrite'',
                    ''rtc_products/B_20210113T000000/B_20210113T000000_VV.tif'',
                    ''rtc_products/B_20210113T000000/rB_20210113T000000_VV.tif'',
                    ''-s_srs'', ''EPSG:32611'', ''-t_srs'', ''EPSG:32610''],
                   [''rm'', ''rtc_products/B_20210113T000000/B_20210113T000000_VV.tif'']]\<rparr> \<and>
   set [''32610'', ''32610''] = {''32610''} \<and>
   (\<exists>target. predominant_utm ''UTM'' [''32610'', ''32611'', ''32610''] = Inr target) \<and>
   coordinate_normalizer working_tools ''UTM''
     [''rtc_products/A_20210101T000000/A_20210101T000000_VV.tif'',
      ''rtc_products/C_20210125T000000/C_20210125T000000_VV.tif'']
     [''EPSG'', ''EPSG''] [''32610'', ''32610'']
     \<lparr>files = [(''rtc_products/A_20210101T000000/A_20210101T000000_VV.tif'', Frame 0),
               (''rtc_products/C_20210125T000000/C_20210125T000000_VV.tif'', Frame 2)], calls = []\<rparr>
   = Inr \<lparr>files = [(''rtc_products/A_20210101T000000/A_20210101T000000_VV.tif'', Frame 0),
                    (''rtc_products/C_20210125T000000/C_20210125T000000_VV.tif'', Frame 2)], calls = []\<rparr>"
proof -
  have r: "coordinate_normalizer working_tools ''UTM''
     [''rtc_products/A_20210101T000000/A_20210101T000000_VV.tif'',
      ''rtc_products/B_20210113T000000/B_20210113T000000_VV.tif'',
      ''rtc_products/C_20210125T000000/C_20210125T000000_VV.tif'']
     [''EPSG'', ''EPSG'', ''EPSG''] [''32610'', ''32611'', ''32610'']
     \<lparr>files = [(''rtc_products/A_20210101T000000/A_20210101T000000_VV.tif'', Frame 0),
               (''rtc_products/B_20210113T000000/B_20210113T000000_VV.tif'', Frame 1),
               (''rtc_products/C_20210125T000000/C_20210125T000000_VV.tif'', Frame 2)], calls = []\<rparr>
   = Inr \<lparr>files = [(''rtc_products/A_20210101T000000/A_20210101T000000_VV.tif'', Frame 0),
                    (''rtc_products/C_20210125T000000/C_20210125T000000_VV.tif'', Frame 2),
                    (''rtc_products/B_20210113T000000/rB_20210113T000000_VV.tif'',
                     Warped (Frame 1) ''EPSG:32610'')],
          calls = [[''gdalwarp'', ''-overwrite'',
                    ''rtc_products/B_20210113T000000/B_20210113T000000_VV.tif'',
                    ''rtc_products/B_20210113T000000/rB_20210113T000000_VV.tif'',
                    ''-s_srs'', ''EPSG:32611'', ''-t_srs'', ''EPSG:32610''],
                   [''rm'', ''rtc_products/B_20210113T000000/B_20210113T000000_VV.tif'']]\<rparr>"
    by code_simp
  have s: "set [''32610'', ''32610''] = {''32610''}" by simp
  note c1 = mp[OF conjunct1[OF coordinate_normalizer_reprojects_other_codes] r]
  note c2 = mp[OF conjunct2[OF coordinate_normalizer_reprojects_other_codes] s]
  from c1 have t: "\<exists>target. predominant_utm ''UTM'' [''32610'', ''32611'', ''32610''] = Inr target"
    by (elim exE conjE, intro exI)
  show ?thesis
    apply (intro conjI)
       apply (rule r)
      apply (rule s)
     apply (rule t)
    apply (rule c2)
    done
qed

text \<open>
  C6 as stated fails.  In Lat/Long mode two files that share the zone 32610 are both
  reprojected and replaced; and in UTM mode a file in ESRI:32610 beside two files in
  EPSG:32610 is not reprojected, because only the codes are compared.
\<close>

theorem coordinate_normalizer_latlong_counterexample:
  "coordinate_normalizer working_tools ''Lat/Long''
     [''rtc_products/A_20210101T000000/A_20210101T000000_VV.tif'',
      ''rtc_products/B_20210113T000000/B_20210113T000000_VV.tif'']
     [''EPSG'', ''EPSG''] [''32610'', ''32610'']
     \<lparr>files = [(''rtc_products/A_20210101T000000/A_20210101T000000_VV.tif'', Frame 0),
               (''rtc_products/B_20210113T000000/B_20210113T000000_VV.tif'', Frame 1)], calls = []\<rparr>
   = Inr \<lparr>files = [(''rtc_products/A_20210101T000000/rA_20210101T000000_VV.tif'', Warped (Frame 0) ''EPSG:4326''),
                    (''rtc_products/B_20210113T000000/rB_20210113T000000_VV.tif'', Warped (Frame 1) ''EPSG:4326'')],
          calls = [[''gdalwarp'', ''-overwrite'',
                    ''rtc_products/A_20210101T000000/A_20210101T000000_VV.tif'',
                    ''rtc_products/A_20210101T000000/rA_20210101T000000_VV.tif'',
                    ''-s_srs'', ''EPSG:32610'', ''-t_srs'', ''EPSG:4326''],
                   [''rm'', ''rtc_products/A_20210101T000000/A_20210101T000000_VV.tif''],
                   [''gdalwarp'', ''-overwrite'',
                    ''rtc_products/B_20210113T000000/B_20210113T000000_VV.tif'',
                    ''rtc_products/B_20210113T000000/rB_20210113T000000_VV.tif'',
                    ''-s_srs'', ''EPSG:32610'', ''-t_srs'', ''EPSG:4326''],
                   [''rm'', ''rtc_products/B_20210113T000000/B_20210113T000000_VV.tif'']]\<rparr> \<and>
   coordinate_normalizer working_tools ''UTM''
     [''rtc_products/A_20210101T000000/A_20210101T000000_VV.tif'',
      ''rtc_products/B_20210113T000000/B_20210113T000000_VV.tif'',
      ''rtc_products/C_20210125T000000/C_20210125T000000_VV.tif'']
     [''EPSG'', ''EPSG'', ''ESRI''] [''32610'', ''32610'', ''32610'']
     \<lparr>files = [(''rtc_products/A_20210101T000000/A_20210101T000000_VV.tif'', Frame 0),
               (''rtc_products/B_20210113T000000/B_20210113T000000_VV.tif'', Frame 1),
               (''rtc_products/C_20210125T000000/C_20210125T000000_VV.tif'', Frame 2)], calls = []\<rparr>
   = Inr \<lparr>files = [(''rtc_products/A_20210101T000000/A_20210101T000000_VV.tif'', Frame 0),
               (''rtc_products/B_20210113T000000/B_20210113T000000_VV.tif'', Frame 1),
               (''rtc_products/C_20210125T000000/C_20210125T000000_VV.tif'', Frame 2)], calls = []\<rparr>"
  by code_simp


subsection \<open>The merge of one date (cell 63)\<close>

lemma split_on_append_nosep:
  "c \<notin> set a \<Longrightarrow> split_on c (a @ r) = (a @ hd (split_on c r)) # tl (split_on c r)"
proof (induction a)
  case Nil
  then show ?case by simp
next
  case (Cons x a)
  then show ?case by auto
qed

lemma split_on_spaced:
  "\<forall>p\<in>set ps. CHR '' '' \<notin> set p \<Longrightarrow>
     split_on (CHR '' '') (concat (map ((#) (CHR '' '')) ps)) = [] # ps"
proof (induction ps)
  case Nil
  show ?case by simp
next
  case (Cons p ps)
  then have ih: "split_on (CHR '' '') (concat (map ((#) (CHR '' '')) ps)) = [] # ps"
    and p: "CHR '' '' \<notin> set p" by simp_all
  show ?case
    using split_on_append_nosep[OF p, of "concat (map ((#) (CHR '' '')) ps)"] ih by simp
qed

lemma sh_words_spaced:
  "\<forall>p\<in>set ps. p \<noteq> [] \<and> CHR '' '' \<notin> set p \<Longrightarrow>
     sh_words (concat (map ((#) (CHR '' '')) ps)) = ps"
proof -
  assume a: "\<forall>p\<in>set ps. p \<noteq> [] \<and> CHR '' '' \<notin> set p"
  then have "split_on (CHR '' '') (concat (map ((#) (CHR '' '')) ps)) = [] # ps"
    by (intro split_on_spaced) simp
  moreover from a have "filter (\<lambda>w. w \<noteq> []) ps = ps"
    by (simp add: filter_id_conv)
  ultimately show ?thesis by (simp add: sh_words_def)
qed

lemma hd_split_on_spaced:
  "hd (split_on (CHR ''/'') (concat (map ((#) (CHR '' '')) ps))) = [] \<or>
   (\<exists>y. hd (split_on (CHR ''/'') (concat (map ((#) (CHR '' '')) ps))) = CHR '' '' # y)"
proof (cases ps)
  case Nil
  then show ?thesis by simp
next
  case (Cons p ps')
  obtain w ws where "split_on (CHR ''/'') (p @ concat (map ((#) (CHR '' '')) ps')) = w # ws"
    by (cases "split_on (CHR ''/'') (p @ concat (map ((#) (CHR '' '')) ps'))") auto
  with Cons show ?thesis by simp
qed

lemma merge_output_spaced:
  assumes sp: "split_on (CHR ''/'') p1 = [d0, d1, n]" and ns: "CHR '' '' \<notin> set p1"
  shows "merge_output (concat (map ((#) (CHR '' '')) (p1 # ps))) =
           Inr (CHR '' '' # d0 @ ''/'' @ d1 @ ''/new'' @ n)"
proof -
  let ?r = "concat (map ((#) (CHR '' '')) ps)"
  have p1: "p1 = d0 @ CHR ''/'' # d1 @ CHR ''/'' # n"
    using split_on_three[OF sp] .
  have parts: "d0 \<in> set (split_on (CHR ''/'') p1)" "d1 \<in> set (split_on (CHR ''/'') p1)"
    "n \<in> set (split_on (CHR ''/'') p1)"
    by (simp_all add: sp)
  have sl: "CHR ''/'' \<notin> set d0" "CHR ''/'' \<notin> set d1" "CHR ''/'' \<notin> set n"
    using parts by (auto dest: split_on_parts_no_sep)
  have nsn: "CHR '' '' \<notin> set n"
    using split_on_parts_subset[OF parts(3)] ns by auto
  have v: "concat (map ((#) (CHR '' '')) (p1 # ps)) =
      (CHR '' '' # d0) @ CHR ''/'' # d1 @ CHR ''/'' # (n @ ?r)"
    by (simp add: p1)
  have s1: "split_on (CHR ''/'') ((CHR '' '' # d0) @ CHR ''/'' # d1 @ CHR ''/'' # (n @ ?r)) =
      (CHR '' '' # d0) # d1 # split_on (CHR ''/'') (n @ ?r)"
    using sl by (simp only: split_on_append_sep) (simp add: split_on_no_sep)
  have s2: "split_on (CHR ''/'') (n @ ?r) = (n @ hd (split_on (CHR ''/'') ?r)) # tl (split_on (CHR ''/'') ?r)"
    by (rule split_on_append_nosep[OF sl(3)])
  have s3: "\<exists>rest. split_on (CHR '' '') (n @ hd (split_on (CHR ''/'') ?r)) = n # rest"
  proof -
    from hd_split_on_spaced[of ps] show ?thesis
    proof
      assume "hd (split_on (CHR ''/'') ?r) = []"
      then show ?thesis using nsn by (simp add: split_on_no_sep)
    next
      assume "\<exists>y. hd (split_on (CHR ''/'') ?r) = CHR '' '' # y"
      then obtain y where y: "hd (split_on (CHR ''/'') ?r) = CHR '' '' # y" by (rule exE)
      have "split_on (CHR '' '') (n @ CHR '' '' # y) = split_on (CHR '' '') n @ split_on (CHR '' '') y"
        by (rule split_on_append_sep)
      then show ?thesis using nsn by (simp add: y split_on_no_sep)
    qed
  qed
  then obtain rest where s3': "split_on (CHR '' '') (n @ hd (split_on (CHR ''/'') ?r)) = n # rest"
    by (rule exE)
  show ?thesis
    unfolding merge_output_def v s1 s2 by (simp add: s3')
qed

lemma remove_existing_files:
  "p \<noteq> [] \<Longrightarrow> files (remove_existing p w) = AList.delete p (files w)"
  by (simp add: remove_existing_def path_exists_def os_remove_def)

lemma remove_existing_calls [simp]: "calls (remove_existing p w) = calls w"
  by (simp add: remove_existing_def)

lemma remove_existing_Nil [simp]: "remove_existing [] w = w"
  by (simp add: remove_existing_def)

lemma fold_remove_existing:
  "\<forall>p\<in>set ps. p \<noteq> [] \<Longrightarrow>
     files (fold remove_existing ps w) = fold AList.delete ps (files w) \<and>
     calls (fold remove_existing ps w) = calls w"
  by (induction ps arbitrary: w) (simp_all add: remove_existing_files)

lemma not_exists_after_delete:
  "p \<in> set ps \<Longrightarrow> files w' = fold AList.delete ps fs \<Longrightarrow> \<not> path_exists w' p"
proof -
  assume "p \<in> set ps" and f: "files w' = fold AList.delete ps fs"
  then have "map_of (files w') p = None"
    by (simp add: map_of_fold_delete)
  then show ?thesis
    by (simp add: path_exists_def map_of_eq_None_iff)
qed

lemma sh_words_gdal_merge_cmd:
  assumes out: "out \<noteq> []" "CHR '' '' \<notin> set out"
    and wf: "\<forall>p\<in>set ps. p \<noteq> [] \<and> CHR '' '' \<notin> set p"
  shows "sh_words (''gdal_merge.py -o '' @ (CHR '' '' # out) @ '' '' @ concat (map ((#) (CHR '' '')) ps))
       = ''gdal_merge.py'' # ''-o'' # out # ps"
proof -
  let ?v = "concat (map ((#) (CHR '' '')) ps)"
  have "''gdal_merge.py -o '' @ (CHR '' '' # out) @ '' '' @ ?v =
      ''gdal_merge.py'' @ CHR '' '' # (''-o'' @ CHR '' '' # ([] @ CHR '' '' # (out @ CHR '' '' # ?v)))"
    by simp
  then have "sh_words (''gdal_merge.py -o '' @ (CHR '' '' # out) @ '' '' @ ?v) =
      sh_words ''gdal_merge.py'' @ sh_words ''-o'' @ sh_words [] @ sh_words out @ sh_words ?v"
    by (simp only: sh_words_append_space)
  moreover have "sh_words ''gdal_merge.py'' = [''gdal_merge.py'']"
    by (rule sh_words_word) simp_all
  moreover have "sh_words ''-o'' = [''-o'']"
    by (rule sh_words_word) simp_all
  moreover have "sh_words out = [out]"
    using out by (simp add: sh_words_word)
  moreover have "sh_words ?v = ps"
    by (rule sh_words_spaced[OF wf])
  ultimately show ?thesis by simp
qed

lemma merge_date_pieces:
  assumes sp: "split_on (CHR ''/'') p1 = [d0, d1, n]"
    and wf: "\<forall>p\<in>set (p1 # ps). p \<noteq> [] \<and> CHR '' '' \<notin> set p"
  shows "\<exists>w' argv.
           merge_date T (concat (map ((#) (CHR '' '')) (p1 # ps))) w = Inr w' \<and>
           argv = ''gdal_merge.py'' # ''-o'' # (d0 @ ''/'' @ d1 @ ''/new'' @ n) # p1 # ps \<and>
           calls w' = calls w @ [argv] \<and>
           (\<forall>p\<in>set (p1 # ps). \<not> path_exists w' p) \<and>
           (gdal_merge T argv (files w) = None \<longrightarrow>
              files w' = fold AList.delete (p1 # ps) (files w)) \<and>
           (\<forall>c. gdal_merge T argv (files w) = Some c \<longrightarrow>
              files w' = fold AList.delete (p1 # ps)
                           (AList.update (d0 @ ''/'' @ d1 @ ''/new'' @ n) c (files w)))"
proof -
  let ?v = "concat (map ((#) (CHR '' '')) (p1 # ps))"
  let ?out = "d0 @ ''/'' @ d1 @ ''/new'' @ n"
  let ?argv = "''gdal_merge.py'' # ''-o'' # ?out # p1 # ps"
  let ?cmd = "''gdal_merge.py -o '' @ (CHR '' '' # ?out) @ '' '' @ ?v"
  let ?w1 = "shell T ?cmd w"
  let ?w' = "fold remove_existing (split_on (CHR '' '') ?v) ?w1"
  from wf have ns1: "CHR '' '' \<notin> set p1" by simp
  have mo: "merge_output ?v = Inr (CHR '' '' # ?out)"
    by (rule merge_output_spaced[OF sp ns1])
  have parts: "d0 \<in> set (split_on (CHR ''/'') p1)" "d1 \<in> set (split_on (CHR ''/'') p1)"
    "n \<in> set (split_on (CHR ''/'') p1)"
    by (simp_all add: sp)
  have "CHR '' '' \<notin> set d0" "CHR '' '' \<notin> set d1" "CHR '' '' \<notin> set n"
    using parts ns1 by (auto dest: split_on_parts_subset)
  then have out: "?out \<noteq> []" "CHR '' '' \<notin> set ?out" by simp_all
  have words: "sh_words ?cmd = ?argv"
    by (rule sh_words_gdal_merge_cmd[OF out wf])
  have md: "merge_date T ?v w = Inr ?w'"
    by (simp only: merge_date_def mo sum.case)
  note g = shell_gdal_merge[OF words, of T w]
  have sv: "split_on (CHR '' '') ?v = [] # p1 # ps"
    by (rule split_on_spaced) (use wf in simp)
  have ne: "\<forall>p\<in>set (p1 # ps). p \<noteq> []" using wf by simp
  have w'eq: "?w' = fold remove_existing (p1 # ps) ?w1"
    by (simp only: sv fold_simps remove_existing_Nil comp_apply)
  note fr = fold_remove_existing[OF ne, of ?w1]
  have f': "files ?w' = fold AList.delete (p1 # ps) (files ?w1)"
    and c': "calls ?w' = calls w @ [?argv]"
    unfolding w'eq using fr g(2) by simp_all
  have gone: "\<forall>p\<in>set (p1 # ps). \<not> path_exists ?w' p"
    using not_exists_after_delete[OF _ f'] by blast
  have fail: "gdal_merge T ?argv (files w) = None \<longrightarrow> files ?w' = fold AList.delete (p1 # ps) (files w)"
    unfolding f' g(1) by simp
  have ok: "\<forall>c. gdal_merge T ?argv (files w) = Some c \<longrightarrow>
      files ?w' = fold AList.delete (p1 # ps) (AList.update ?out c (files w))"
    unfolding f' g(1) by simp
  show ?thesis
    apply (rule exI[of _ ?w'], rule exI[of _ ?argv])
    apply (intro conjI)
         apply (rule md)
        apply (rule refl)
       apply (rule c')
      apply (rule gone)
     apply (rule fail)
    apply (rule ok)
    done
qed

subsection \<open>The candidate dates (cells 59 and 61)\<close>

lemma update_fresh: "k \<notin> fst ` set al \<Longrightarrow> AList.update k v al = al @ [(k, v)]"
  by (induction al) auto

lemma fold_update_candidates:
  "distinct xs \<Longrightarrow> set xs \<inter> fst ` set acc = {} \<Longrightarrow>
     fold (\<lambda>date d. if P date then AList.update date v d else d) xs acc =
       acc @ map (\<lambda>d. (d, v)) (filter P xs)"
proof (induction xs arbitrary: acc)
  case Nil
  then show ?case by simp
next
  case (Cons x xs)
  from Cons.prems have fresh: "x \<notin> fst ` set acc" and dx: "distinct xs" "x \<notin> set xs"
    and disj: "set xs \<inter> fst ` set acc = {}" by auto
  show ?case
  proof (cases "P x")
    case True
    have "set xs \<inter> fst ` set (acc @ [(x, v)]) = {}"
      using disj dx by auto
    from Cons.IH[OF dx(1) this] show ?thesis
      using True by (simp add: update_fresh[OF fresh])
  next
    case False
    from Cons.IH[OF dx(1) disj] show ?thesis using False by simp
  qed
qed

lemma dup_date_batches_eq:
  "dup_date_batches dbl_polar dates =
     (let b = map (\<lambda>d. (d, [])) [d \<leftarrow> remdups dates. 1 < count_list dates d]
      in if dbl_polar then [b, b] else [b])"
proof -
  have "fold (\<lambda>date d. if 1 < count_list dates date then AList.update date [] d else d)
          (remdups dates) [] =
        [] @ map (\<lambda>d. (d, [])) (filter (\<lambda>d. 1 < count_list dates d) (remdups dates))"
    by (rule fold_update_candidates) simp_all
  then show ?thesis
    by (simp add: dup_date_batches_def unique_dates_def Let_def)
qed

lemma add_paths_keys:
  "add_paths T i pths bs = Inr bs' \<Longrightarrow> map (map fst) bs' = map (map fst) bs"
proof (induction pths arbitrary: bs)
  case Nil
  then show ?case by simp
next
  case (Cons pth pths)
  from Cons.prems obtain date d where
    pd: "product_date T pth = Inr date" and ix: "py_index bs i = Inr d"
    by (auto split: sum.splits)
  then have i: "i < length bs" and d: "d = bs ! i"
    by (auto simp: py_index_def split: if_splits)
  show ?case
  proof (cases "map_of d date")
    case None
    with Cons.prems pd ix have "add_paths T i pths bs = Inr bs'" by simp
    then show ?thesis by (rule Cons.IH)
  next
    case (Some v)
    with Cons.prems pd ix have
      "add_paths T i pths (bs[i := AList.update date (v @ '' '' @ pth) d]) = Inr bs'" by simp
    from Cons.IH[OF this] have
      "map (map fst) bs' = map (map fst) (bs[i := AList.update date (v @ '' '' @ pth) d])" .
    moreover from Some have "date \<in> fst ` set d"
      by (metis domI dom_map_of_conv_image_fst)
    then have "map fst (AList.update date (v @ '' '' @ pth) d) = map fst d"
      by (simp add: update_keys)
    ultimately show ?thesis
      using i d by (simp add: map_update list_update_same_conv)
  qed
qed

lemma update_batches_keys:
  "update_batches T pths fs ips bs = Inr bs' \<Longrightarrow> map (map fst) bs' = map (map fst) bs"
proof (induction ips arbitrary: bs)
  case Nil
  then show ?case by simp
next
  case (Cons ip ips)
  obtain i polar where ip: "ip = (i, polar)" by (cases ip)
  from Cons.prems ip obtain b1 where
    a: "add_paths T i (get_tiff_paths (polar_regex polar) polar pths fs) bs = Inr b1" and
    r: "update_batches T pths fs ips b1 = Inr bs'"
    by (auto split: sum.splits)
  from Cons.IH[OF r] add_paths_keys[OF a] show ?case by simp
qed

lemma re_search_dollar_iff:
  "re_search_dollar r s \<longleftrightarrow> (\<exists>u\<in>set (suffixes s). \<exists>rest\<in>set (rx_step r u). at_end rest)"
  by (simp add: re_search_dollar_def list_ex_iff)

lemma prefix_append_drop:
  "prefix (a @ b) m \<longleftrightarrow> prefix a m \<and> prefix b (drop (length a) m)"
  by (auto simp: prefix_def)

lemma rx_step_Lit_Lit:
  "set (rx_step (Cat (Lit a) (Lit b)) m) = set (rx_step (Lit (a @ b)) m)"
  by (auto simp: prefix_append_drop add.commute)

lemma rx_step_Cat_set:
  "set (rx_step (Cat a b) s) = (\<Union>m\<in>set (rx_step a s). set (rx_step b m))"
  by simp

lemma rx_step_Cat_cong_set:
  "(\<And>m. set (rx_step b m) = (\<Union>x\<in>X. set (rx_step (b' x) m))) \<Longrightarrow>
     set (rx_step (Cat a b) s) = (\<Union>x\<in>X. set (rx_step (Cat a (b' x)) s))"
  by auto

lemma rx_step_Cat_cong_set2:
  "(\<And>m. set (rx_step a m) = (\<Union>x\<in>X. set (rx_step (a' x) m))) \<Longrightarrow>
     set (rx_step (Cat a b) s) = (\<Union>x\<in>X. set (rx_step (Cat (a' x) b) s))"
  by auto

lemma dual_polar_set:
  "set (rx_step (Cat (Lit [p0]) (Alt (Lit ''v'') (Alt (Lit ''V'') (Alt (Lit ''h'') (Lit ''H''))))) m) =
     (\<Union>x\<in>set ''vVhH''. set (rx_step (Lit [p0, x]) m))"
proof -
  have "set (rx_step (Cat (Lit [p0]) (Alt (Lit ''v'') (Alt (Lit ''V'') (Alt (Lit ''h'') (Lit ''H''))))) m) =
      (\<Union>x\<in>set ''vVhH''. set (rx_step (Cat (Lit [p0]) (Lit [x])) m))"
    by (simp del: rx_step.simps(1) add: Un_assoc UN_Un_distrib)
  also have "\<dots> = (\<Union>x\<in>set ''vVhH''. set (rx_step (Lit ([p0] @ [x])) m))"
    by (simp only: rx_step_Lit_Lit)
  finally show ?thesis by simp
qed

lemma regex_of_dual_set:
  "set (rx_step (regex_of (Cat (Lit [p0]) (Alt (Lit ''v'') (Alt (Lit ''V'') (Alt (Lit ''h'') (Lit ''H'')))))) u) =
     (\<Union>x\<in>set ''vVhH''. set (rx_step (regex_of (Lit [p0, x])) u))"
  unfolding regex_of_def
  by (intro rx_step_Cat_cong_set rx_step_Cat_cong_set2 dual_polar_set)

lemma regex_dual_both_channels:
  "re_search_dollar (regex_of (Cat (Lit [p0]) (Alt (Lit ''v'') (Alt (Lit ''V'') (Alt (Lit ''h'') (Lit ''H'')))))) s
     \<longleftrightarrow> (\<exists>x\<in>set ''vVhH''. re_search_dollar (regex_of (Lit [p0, x])) s)"
  unfolding re_search_dollar_iff regex_of_dual_set by blast

lemma merge_candidates_unfold:
  assumes "merge_candidates T polarization fs = Inr batches"
  obtains regex dbl_polar pths dates polars where
    "regex_dbl_polar polarization = Inr (regex, dbl_polar)"
    "tiff_pth polarization = Inr pths"
    "get_dates T (get_tiff_paths regex polarization pths fs) = Inr dates"
    "polar_list dbl_polar polarization = Inr polars"
    "update_batches T pths fs (enumerate 0 polars) (dup_date_batches dbl_polar dates) = Inr batches"
  using assms unfolding merge_candidates_def
  by (auto split: sum.splits prod.splits)

lemma candidate_keys:
  "set [d \<leftarrow> remdups dates. 1 < count_list dates d] = {d. 1 < count_list dates d}"
proof -
  have "d \<in> set dates" if "1 < count_list dates d" for d
  proof (rule ccontr)
    assume "d \<notin> set dates"
    then have "count_list dates d = 0" by (simp add: count_list_0_iff)
    with that show False by simp
  qed
  then show ?thesis by auto
qed

subsection \<open>The merge loop and the report (cells 63 and 65)\<close>

lemma merge_date_spaced:
  assumes wf: "\<forall>p\<in>set (p1 # ps). product_path p"
  shows "\<exists>w' argv.
           merge_date T (spaced (p1 # ps)) w = Inr w' \<and>
           argv = ''gdal_merge.py'' # ''-o'' # merged_path p1 # p1 # ps \<and>
           calls w' = calls w @ [argv] \<and>
           (\<forall>p\<in>set (p1 # ps). \<not> path_exists w' p) \<and>
           (gdal_merge T argv (files w) = None \<longrightarrow>
              files w' = fold AList.delete (p1 # ps) (files w)) \<and>
           (\<forall>c. gdal_merge T argv (files w) = Some c \<longrightarrow>
              files w' = fold AList.delete (p1 # ps) (AList.update (merged_path p1) c (files w)))"
proof -
  from wf have "length (split_on CHR ''/'' p1) = 3" by (simp add: product_path_def)
  then obtain d0 d1 n where sp: "split_on (CHR ''/'') p1 = [d0, d1, n]"
    by (cases "split_on CHR ''/'' p1"; cases "tl (split_on CHR ''/'' p1)";
        cases "tl (tl (split_on CHR ''/'' p1))") auto
  have mp: "merged_path p1 = d0 @ ''/'' @ d1 @ ''/new'' @ n"
    by (simp add: merged_path_def sp)
  have ne: "p \<noteq> []" if "product_path p" for p
  proof
    assume "p = []"
    with that show False by (simp add: product_path_def)
  qed
  have wf': "\<forall>p\<in>set (p1 # ps). p \<noteq> [] \<and> CHR '' '' \<notin> set p"
    using wf ne by (auto simp: product_path_def)
  show ?thesis
    unfolding spaced_def mp by (rule merge_date_pieces[OF sp wf'])
qed








subsection \<open>The output path of a merge\<close>

lemma split3_obtain:
  assumes "product_path p"
  obtains d0 d1 n where "split_on (CHR ''/'') p = [d0, d1, n]"
proof -
  from assms have "length (split_on CHR ''/'' p) = 3" by (simp add: product_path_def)
  then obtain d0 d1 n where "split_on (CHR ''/'') p = [d0, d1, n]"
    by (cases "split_on CHR ''/'' p"; cases "tl (split_on CHR ''/'' p)";
        cases "tl (tl (split_on CHR ''/'' p))") auto
  then show ?thesis by (rule that)
qed

lemma merged_path_split:
  assumes sp: "split_on (CHR ''/'') p = [d0, d1, n]"
  shows "merged_path p = d0 @ ''/'' @ d1 @ ''/new'' @ n"
    and "split_on (CHR ''/'') (merged_path p) = [d0, d1, ''new'' @ n]"
    and "merged_path p \<noteq> p"
proof -
  show mp: "merged_path p = d0 @ ''/'' @ d1 @ ''/new'' @ n"
    by (simp add: merged_path_def sp)
  have parts: "d0 \<in> set (split_on (CHR ''/'') p)" "d1 \<in> set (split_on (CHR ''/'') p)"
    "n \<in> set (split_on (CHR ''/'') p)"
    by (simp_all add: sp)
  have sl: "CHR ''/'' \<notin> set d0" "CHR ''/'' \<notin> set d1" "CHR ''/'' \<notin> set (''new'' @ n)"
    using parts by (auto dest: split_on_parts_no_sep)
  have "merged_path p = d0 @ CHR ''/'' # d1 @ CHR ''/'' # (''new'' @ n)"
    by (simp add: mp)
  moreover have "split_on (CHR ''/'') (d0 @ CHR ''/'' # d1 @ CHR ''/'' # (''new'' @ n)) = [d0, d1, ''new'' @ n]"
    by (rule split_on_path3[OF sl])
  ultimately show s2: "split_on (CHR ''/'') (merged_path p) = [d0, d1, ''new'' @ n]"
    by (simp only:)
  show "merged_path p \<noteq> p"
  proof
    assume "merged_path p = p"
    then have "split_on (CHR ''/'') (merged_path p) = split_on (CHR ''/'') p" by (simp only:)
    then have "[d0, d1, ''new'' @ n] = [d0, d1, n]" by (simp only: s2 sp)
    then show False by simp
  qed
qed

lemma product_path_merged:
  assumes "product_path p"
  shows "product_path (merged_path p)"
proof -
  from split3_obtain[OF assms] obtain d0 d1 n where sp: "split_on (CHR ''/'') p = [d0, d1, n]" .
  have p: "p = d0 @ CHR ''/'' # d1 @ CHR ''/'' # n" by (rule split_on_three[OF sp])
  from assms have "CHR '' '' \<notin> set p" by (simp add: product_path_def)
  then have "CHR '' '' \<notin> set d0" "CHR '' '' \<notin> set d1" "CHR '' '' \<notin> set n"
    by (subst (asm) p, simp)+
  then have "CHR '' '' \<notin> set (merged_path p)"
    by (simp add: merged_path_split(1)[OF sp])
  then show ?thesis
    by (simp add: product_path_def merged_path_split(2)[OF sp])
qed

lemma list_ex_upt_Suc: "list_ex P [0..<Suc m] \<longleftrightarrow> (\<exists>k. k \<le> m \<and> P k)"
proof
  assume "list_ex P [0..<Suc m]"
  then obtain k where "k \<in> set [0..<Suc m]" "P k" unfolding list_ex_iff by (rule bexE)
  then have "k \<le> m \<and> P k" by auto
  then show "\<exists>k. k \<le> m \<and> P k" by (rule exI)
next
  assume "\<exists>k. k \<le> m \<and> P k"
  then obtain k where "k \<le> m" "P k" by (elim exE conjE)
  then have "k \<in> set [0..<Suc m]" by auto
  from this \<open>P k\<close> show "list_ex P [0..<Suc m]" unfolding list_ex_iff by (rule rev_bexI)
qed

lemma fnmatch_star_iff:
  "fnmatch (CHR ''*'' # qs) n \<longleftrightarrow> (\<exists>k. k \<le> length n \<and> fnmatch qs (drop k n))"
  by (simp add: list_ex_upt_Suc del: upt_Suc)

lemma fnmatch_star_prefix:
  "fnmatch (CHR ''*'' # qs) n \<Longrightarrow> fnmatch (CHR ''*'' # qs) (pre @ n)"
proof -
  assume "fnmatch (CHR ''*'' # qs) n"
  then obtain k where k: "k \<le> length n" "fnmatch qs (drop k n)"
    unfolding fnmatch_star_iff by (elim exE conjE)
  then have "length pre + k \<le> length (pre @ n) \<and> fnmatch qs (drop (length pre + k) (pre @ n))"
    by simp
  then show ?thesis
    unfolding fnmatch_star_iff by (rule exI)
qed

lemma glob_match_merged:
  assumes pat: "split_on (CHR ''/'') pat = [q0, q1, CHR ''*'' # q2]"
    and sp: "split_on (CHR ''/'') p = [d0, d1, n]"
    and m: "glob_match pat p"
  shows "glob_match pat (merged_path p)"
proof -
  from m have c0: "glob_component q0 d0" and c1: "glob_component q1 d1"
    and c2: "glob_component (CHR ''*'' # q2) n"
    by (simp_all add: glob_match_def pat sp)
  have magic: "has_magic (CHR ''*'' # q2)" by (simp add: has_magic_def)
  from c2 magic have "fnmatch (CHR ''*'' # q2) n" by (simp add: glob_component_def)
  then have "fnmatch (CHR ''*'' # q2) (''new'' @ n)" by (rule fnmatch_star_prefix)
  then have "glob_component (CHR ''*'' # q2) (''new'' @ n)"
    using magic by (simp add: glob_component_def)
  with c0 c1 show ?thesis
    by (simp add: glob_match_def pat merged_path_split(2)[OF sp])
qed

lemma re_search_dollar_prefix:
  assumes "re_search_dollar r n"
  shows "re_search_dollar r (pre @ n)"
proof -
  from assms obtain u where us: "u \<in> set (suffixes n)" and e: "list_ex at_end (rx_step r u)"
    unfolding re_search_dollar_def list_ex_iff by (rule bexE)
  from us have "suffix u n" by (simp add: in_set_suffixes)
  then have "suffix u (pre @ n)" by (rule suffix_appendI)
  then have "u \<in> set (suffixes (pre @ n))" by (simp add: in_set_suffixes)
  from this e show ?thesis
    unfolding re_search_dollar_def list_ex_iff by (rule rev_bexI)
qed

lemma takeWhile_length_ge:
  "k \<le> length (takeWhile P u) \<longleftrightarrow> k \<le> length u \<and> (\<forall>i<k. P (u ! i))"
proof
  assume a: "k \<le> length (takeWhile P u)"
  have "k \<le> length u"
    using a length_takeWhile_le[of P u] by (rule order_trans)
  moreover have "P (u ! i)" if "i < k" for i
  proof -
    from that a have i: "i < length (takeWhile P u)" by simp
    then have "takeWhile P u ! i = u ! i" by (rule takeWhile_nth)
    moreover from i have "takeWhile P u ! i \<in> set (takeWhile P u)" by (rule nth_mem)
    ultimately show ?thesis by (auto dest: set_takeWhileD)
  qed
  ultimately show "k \<le> length u \<and> (\<forall>i<k. P (u ! i))" by simp
next
  assume a: "k \<le> length u \<and> (\<forall>i<k. P (u ! i))"
  show "k \<le> length (takeWhile P u)"
  proof (rule ccontr)
    assume "\<not> k \<le> length (takeWhile P u)"
    then have lt: "length (takeWhile P u) < k" by simp
    with a have "length (takeWhile P u) < length u" by simp
    then have "\<not> P (u ! length (takeWhile P u))" by (rule nth_length_takeWhile)
    with a lt show False by simp
  qed
qed

lemma rx_step_Rep_exact:
  "rx_step (Rep k (Some k) P) u = (if k \<le> length (takeWhile P u) then [drop k u] else [])"
  by (simp add: Let_def min_def)

lemma prefix_T: "prefix ''T'' v \<longleftrightarrow> v \<noteq> [] \<and> v ! 0 = CHR ''T''"
  by (cases v) auto

lemma rx_step_timestamp:
  "rx_step timestamp_rx u = (if ts_at u then [drop 15 u] else [])"
proof -
  have a: "8 \<le> length (takeWhile is_digit u) \<longleftrightarrow> 8 \<le> length u \<and> (\<forall>i<8. is_digit (u ! i))"
    by (rule takeWhile_length_ge)
  have b: "prefix ''T'' (drop 8 u) \<longleftrightarrow> 9 \<le> length u \<and> u ! 8 = CHR ''T''" if "8 \<le> length u"
    using that by (auto simp: prefix_T)
  have c: "6 \<le> length (takeWhile is_digit (drop 9 u)) \<longleftrightarrow>
      15 \<le> length u \<and> (\<forall>i<6. is_digit (u ! (9 + i)))" if "9 \<le> length u"
    unfolding takeWhile_length_ge using that by auto
  show ?thesis
  proof (cases "ts_at u")
    case True
    then have l: "15 \<le> length u" by (simp add: ts_at_def)
    with True have "8 \<le> length (takeWhile is_digit u)" "prefix ''T'' (drop 8 u)"
      "6 \<le> length (takeWhile is_digit (drop 9 u))"
      using a b c by (simp_all add: ts_at_def)
    with True show ?thesis
      by (simp add: timestamp_rx_def rx_step_Rep_exact del: rx_step.simps(3))
  next
    case False
    have "rx_step timestamp_rx u = []"
    proof (cases "8 \<le> length (takeWhile is_digit u)")
      case f1: False
      then show ?thesis
        by (simp add: timestamp_rx_def rx_step_Rep_exact del: rx_step.simps(3))
    next
      case t1: True
      with a have l8: "8 \<le> length u" and d8: "\<forall>i<8. is_digit (u ! i)" by simp_all
      show ?thesis
      proof (cases "prefix ''T'' (drop 8 u)")
        case f2: False
        with t1 show ?thesis
          by (simp add: timestamp_rx_def rx_step_Rep_exact del: rx_step.simps(3))
      next
        case t2: True
        with b[OF l8] have l9: "9 \<le> length u" and T: "u ! 8 = CHR ''T''" by simp_all
        have "\<not> 6 \<le> length (takeWhile is_digit (drop 9 u))"
        proof
          assume "6 \<le> length (takeWhile is_digit (drop 9 u))"
          with c[OF l9] d8 T have "ts_at u" by (simp add: ts_at_def)
          with False show False by simp
        qed
        with t1 t2 show ?thesis
          by (simp add: timestamp_rx_def rx_step_Rep_exact del: rx_step.simps(3))
      qed
    qed
    with False show ?thesis by simp
  qed
qed

lemma re_search_group0_Cons:
  "re_search_group0 r (x # xs) =
     (case rx_step r (x # xs) of
        [] \<Rightarrow> re_search_group0 r xs
      | rest # _ \<Rightarrow> Some (take (length (x # xs) - length rest) (x # xs)))"
  by (simp add: re_search_group0_def split: list.splits)

lemma hyp3_date_Nil: "hyp3_date_from_product_name [] = None"
  by (simp add: hyp3_date_from_product_name_def re_search_group0_def rx_step_timestamp ts_at_def)

lemma hyp3_date_Cons:
  "hyp3_date_from_product_name (x # xs) =
     (if ts_at (x # xs) then Some (take 15 (x # xs)) else hyp3_date_from_product_name xs)"
proof (cases "ts_at (x # xs)")
  case True
  then have "15 \<le> length (x # xs)" by (simp add: ts_at_def)
  then have "length (x # xs) - length (drop 15 (x # xs)) = 15" by simp
  with True show ?thesis
    unfolding hyp3_date_from_product_name_def re_search_group0_Cons rx_step_timestamp
    by (simp del: drop_Suc_Cons take_Suc_Cons length_drop)
next
  case False
  then show ?thesis
    unfolding hyp3_date_from_product_name_def re_search_group0_Cons rx_step_timestamp
    by simp
qed

lemma ts_at_chars:
  assumes "ts_at u" "i < 15"
  shows "is_digit (u ! i) \<or> u ! i = CHR ''T''"
proof -
  consider "i < 8" | "i = 8" | "9 \<le> i"
    by linarith
  then show ?thesis
  proof cases
    case 1
    with assms(1) show ?thesis by (simp add: ts_at_def)
  next
    case 2
    with assms(1) show ?thesis by (simp add: ts_at_def)
  next
    case 3
    then obtain j where j: "i = 9 + j" by (metis le_Suc_ex)
    with assms(2) have "j < 6" by simp
    with assms(1) j show ?thesis by (simp add: ts_at_def)
  qed
qed

lemma ts_at_long_prefix:
  assumes "15 \<le> length A"
  shows "ts_at (A @ X) \<longleftrightarrow> ts_at A" and "take 15 (A @ X) = take 15 A"
proof -
  have n: "(A @ X) ! i = A ! i" if "i < 15" for i
    using that assms by (simp add: nth_append)
  show "ts_at (A @ X) \<longleftrightarrow> ts_at A"
    unfolding ts_at_def using assms by (simp add: n)
  show "take 15 (A @ X) = take 15 A"
    using assms by simp
qed

lemma slash_not_stamp: "\<not> is_digit (CHR ''/'')" "CHR ''/'' \<noteq> CHR ''T''"
  by (simp_all add: is_digit_def)

lemma ts_at_short_prefix:
  assumes "length A < 15" "A \<noteq> []" "last A = CHR ''/''"
  shows "\<not> ts_at (A @ X)"
proof
  assume t: "ts_at (A @ X)"
  from assms(2) have i: "length A - 1 < length A" by simp
  with assms(1) have "length A - 1 < 15" by simp
  from ts_at_chars[OF t this] have "is_digit ((A @ X) ! (length A - 1)) \<or> (A @ X) ! (length A - 1) = CHR ''T''" .
  moreover have "(A @ X) ! (length A - 1) = last A"
    using i assms(2) by (simp add: nth_append last_conv_nth)
  ultimately show False
    using assms(3) slash_not_stamp by simp
qed

lemma ts_at_prefix_slash:
  assumes "A \<noteq> []" "last A = CHR ''/''"
  shows "ts_at (A @ X) \<longleftrightarrow> ts_at (A @ Y)"
    and "ts_at (A @ X) \<Longrightarrow> take 15 (A @ X) = take 15 (A @ Y)"
proof -
  show "ts_at (A @ X) \<longleftrightarrow> ts_at (A @ Y)"
  proof (cases "15 \<le> length A")
    case True
    then show ?thesis by (simp add: ts_at_long_prefix(1))
  next
    case False
    then have "length A < 15" by simp
    from ts_at_short_prefix[OF this assms] show ?thesis by simp
  qed
  show "take 15 (A @ X) = take 15 (A @ Y)" if "ts_at (A @ X)"
  proof (cases "15 \<le> length A")
    case True
    then show ?thesis by (simp add: ts_at_long_prefix(2))
  next
    case False
    then have "length A < 15" by simp
    from ts_at_short_prefix[OF this assms] that show ?thesis by simp
  qed
qed

lemma not_ts_at_letter: "\<not> is_digit x \<Longrightarrow> \<not> ts_at (x # xs)"
proof
  assume n: "\<not> is_digit x" and t: "ts_at (x # xs)"
  from t have "\<forall>i<8. is_digit ((x # xs) ! i)" by (simp add: ts_at_def)
  then have "is_digit ((x # xs) ! 0)" by (elim allE[of _ 0]) simp
  with n show False by simp
qed

lemma hyp3_date_new: "hyp3_date_from_product_name (''new'' @ B) = hyp3_date_from_product_name B"
proof -
  have d: "\<not> is_digit (CHR ''n'')" "\<not> is_digit (CHR ''e'')" "\<not> is_digit (CHR ''w'')"
    by (simp_all add: is_digit_def)
  have "hyp3_date_from_product_name (CHR ''n'' # CHR ''e'' # CHR ''w'' # B) =
      hyp3_date_from_product_name B"
    by (simp only: hyp3_date_Cons not_ts_at_letter[OF d(1)] not_ts_at_letter[OF d(2)]
          not_ts_at_letter[OF d(3)] if_False)
  then show ?thesis by simp
qed

lemma hyp3_date_insert_new:
  assumes "A \<noteq> []" "last A = CHR ''/''"
  shows "hyp3_date_from_product_name (A @ ''new'' @ B) = hyp3_date_from_product_name (A @ B)"
  using assms
proof (induction A)
  case Nil
  then show ?case by simp
next
  case (Cons a A)
  have eq: "ts_at ((a # A) @ ''new'' @ B) \<longleftrightarrow> ts_at ((a # A) @ B)"
    by (rule ts_at_prefix_slash(1)[OF Cons.prems])
  have tk: "ts_at ((a # A) @ ''new'' @ B) \<Longrightarrow> take 15 ((a # A) @ ''new'' @ B) = take 15 ((a # A) @ B)"
    by (rule ts_at_prefix_slash(2)[OF Cons.prems])
  have rest: "hyp3_date_from_product_name (A @ ''new'' @ B) = hyp3_date_from_product_name (A @ B)"
  proof (cases "A = []")
    case True
    then show ?thesis using hyp3_date_new[of B] by simp
  next
    case False
    with Cons.prems have "last A = CHR ''/''" by simp
    from Cons.IH[OF False this] show ?thesis .
  qed
  show ?case
  proof (cases "ts_at ((a # A) @ B)")
    case True
    with eq have t': "ts_at ((a # A) @ ''new'' @ B)" by simp
    have "hyp3_date_from_product_name ((a # A) @ ''new'' @ B) = Some (take 15 ((a # A) @ ''new'' @ B))"
      using t' by (simp only: append_Cons hyp3_date_Cons if_True)
    also have "\<dots> = Some (take 15 ((a # A) @ B))" using tk[OF t'] by (simp only:)
    also have "\<dots> = hyp3_date_from_product_name ((a # A) @ B)"
      using True by (simp only: append_Cons hyp3_date_Cons if_True)
    finally show ?thesis .
  next
    case False
    with eq have f': "\<not> ts_at ((a # A) @ ''new'' @ B)" by simp
    have "hyp3_date_from_product_name ((a # A) @ ''new'' @ B) = hyp3_date_from_product_name (A @ ''new'' @ B)"
      using f' by (simp only: append_Cons hyp3_date_Cons if_False)
    also have "\<dots> = hyp3_date_from_product_name (A @ B)" by (rule rest)
    also have "\<dots> = hyp3_date_from_product_name ((a # A) @ B)"
      using False by (simp only: append_Cons hyp3_date_Cons if_False)
    finally show ?thesis .
  qed
qed

lemma hyp3_date_merged_path:
  assumes sp: "split_on (CHR ''/'') p = [d0, d1, n]"
  shows "hyp3_date_from_product_name (merged_path p) = hyp3_date_from_product_name p"
proof -
  let ?A = "d0 @ CHR ''/'' # d1 @ [CHR ''/'']"
  have p: "p = ?A @ n" using split_on_three[OF sp] by simp
  have m: "merged_path p = ?A @ ''new'' @ n" by (simp add: merged_path_split(1)[OF sp])
  have "hyp3_date_from_product_name (?A @ ''new'' @ n) = hyp3_date_from_product_name (?A @ n)"
    by (rule hyp3_date_insert_new) simp_all
  then show ?thesis
    using p m by (simp only:)
qed

lemma get_tiff_paths_mem:
  "pth \<in> set (get_tiff_paths regex polarization pths fs) \<longleftrightarrow>
     pth \<in> fst ` set fs \<and> glob_match pths pth \<and> re_search_dollar regex pth"
  by (auto simp: get_tiff_paths_def glob_def)

subsection \<open>The Duplicate-Date Merger: the claims\<close>

text \<open>
  C5, as the code has it.  For a merge candidate whose value lists the paths
  \<open>p1, ..., pk\<close> (paths \<open>dir/product/name\<close> without a space), cell 63 runs one
  gdal\_merge.py command over all of them, with the output \<open>dir/product/new<name>\<close> of
  the first, and then removes every contributing path that exists, whether the command
  succeeded or not; the step always returns, so the loop goes on with the next date.
  After a failure the files are those before the step minus the inputs.
\<close>

theorem merge_date_removes_inputs:
  assumes "\<forall>p\<in>set (p1 # ps). product_path p"
  shows "\<exists>w' argv.
           merge_date T (spaced (p1 # ps)) w = Inr w' \<and>
           argv = ''gdal_merge.py'' # ''-o'' # merged_path p1 # p1 # ps \<and>
           calls w' = calls w @ [argv] \<and>
           (\<forall>p\<in>set (p1 # ps). \<not> path_exists w' p) \<and>
           (gdal_merge T argv (files w) = None \<longrightarrow>
              files w' = fold AList.delete (p1 # ps) (files w)) \<and>
           (\<forall>c. gdal_merge T argv (files w) = Some c \<longrightarrow>
              files w' = fold AList.delete (p1 # ps) (AList.update (merged_path p1) c (files w)))"
  using assms by (rule merge_date_spaced)

theorem merge_date_removes_inputs_witness:
  "product_path ''rtc_products/P1/S1_20210101T000000_VV.tif'' \<and>
   product_path ''rtc_products/P2/S1_20210101T000025_VV.tif'' \<and>
   merge_date working_tools
     (spaced [''rtc_products/P1/S1_20210101T000000_VV.tif'',
              ''rtc_products/P2/S1_20210101T000025_VV.tif'']) two_frames_vv =
     Inr \<lparr>files = [(''rtc_products/P3/S1_20210113T000000_VV.tif'', Frame 2),
                    (''rtc_products/P1/newS1_20210101T000000_VV.tif'', Mosaic [Frame 0, Frame 1])],
          calls = [[''gdal_merge.py'', ''-o'', ''rtc_products/P1/newS1_20210101T000000_VV.tif'',
                    ''rtc_products/P1/S1_20210101T000000_VV.tif'',
                    ''rtc_products/P2/S1_20210101T000025_VV.tif'']]\<rparr> \<and>
   (\<exists>w'. merge_date working_tools
     (spaced [''rtc_products/P1/S1_20210101T000000_VV.tif'',
              ''rtc_products/P2/S1_20210101T000025_VV.tif'']) two_frames_vv = Inr w' \<and>
     \<not> path_exists w' ''rtc_products/P1/S1_20210101T000000_VV.tif'' \<and>
     \<not> path_exists w' ''rtc_products/P2/S1_20210101T000025_VV.tif'')"
proof -
  have h1: "product_path ''rtc_products/P1/S1_20210101T000000_VV.tif''" by code_simp
  have h2: "product_path ''rtc_products/P2/S1_20210101T000025_VV.tif''" by code_simp
  from h1 h2 have h: "\<forall>p\<in>set [''rtc_products/P1/S1_20210101T000000_VV.tif'',
              ''rtc_products/P2/S1_20210101T000025_VV.tif'']. product_path p"
    by simp
  have e: "merge_date working_tools
     (spaced [''rtc_products/P1/S1_20210101T000000_VV.tif'',
              ''rtc_products/P2/S1_20210101T000025_VV.tif'']) two_frames_vv =
     Inr \<lparr>files = [(''rtc_products/P3/S1_20210113T000000_VV.tif'', Frame 2),
                    (''rtc_products/P1/newS1_20210101T000000_VV.tif'', Mosaic [Frame 0, Frame 1])],
          calls = [[''gdal_merge.py'', ''-o'', ''rtc_products/P1/newS1_20210101T000000_VV.tif'',
                    ''rtc_products/P1/S1_20210101T000000_VV.tif'',
                    ''rtc_products/P2/S1_20210101T000025_VV.tif'']]\<rparr>"
    by code_simp
  from merge_date_removes_inputs[OF h, of working_tools two_frames_vv] obtain w' where
    r: "merge_date working_tools
     (spaced [''rtc_products/P1/S1_20210101T000000_VV.tif'',
              ''rtc_products/P2/S1_20210101T000025_VV.tif'']) two_frames_vv = Inr w'" and
    g: "\<forall>p\<in>set [''rtc_products/P1/S1_20210101T000000_VV.tif'',
              ''rtc_products/P2/S1_20210101T000025_VV.tif'']. \<not> path_exists w' p"
    by (elim exE conjE)
  from g have g1: "\<not> path_exists w' ''rtc_products/P1/S1_20210101T000000_VV.tif''"
    and g2: "\<not> path_exists w' ''rtc_products/P2/S1_20210101T000025_VV.tif''"
    by simp_all
  have x: "\<exists>w'. merge_date working_tools
     (spaced [''rtc_products/P1/S1_20210101T000000_VV.tif'',
              ''rtc_products/P2/S1_20210101T000025_VV.tif'']) two_frames_vv = Inr w' \<and>
     \<not> path_exists w' ''rtc_products/P1/S1_20210101T000000_VV.tif'' \<and>
     \<not> path_exists w' ''rtc_products/P2/S1_20210101T000025_VV.tif''"
    using r g1 g2 by (intro exI conjI)
  show ?thesis
    by (intro conjI) (rule h1, rule h2, rule e, rule x)
qed

text \<open>
  C5 as stated fails: when gdal\_merge.py fails for both duplicated dates of
  \<open>four_frames_vv\<close>, the inputs of both are removed, nothing is written, and the loop
  does not stop after the first failure.
\<close>

theorem merge_failed_counterexample:
  "duplicate_date_merger failing_tools ''VV'' four_frames_vv =
     Inr \<lparr>files = [],
          calls = [[''gdal_merge.py'', ''-o'', ''rtc_products/P1/newS1_20210101T000000_VV.tif'',
                    ''rtc_products/P1/S1_20210101T000000_VV.tif'',
                    ''rtc_products/P2/S1_20210101T000025_VV.tif''],
                   [''gdal_merge.py'', ''-o'', ''rtc_products/P3/newS1_20210113T000000_VV.tif'',
                    ''rtc_products/P3/S1_20210113T000000_VV.tif'',
                    ''rtc_products/P4/S1_20210113T000025_VV.tif'']]\<rparr>"
  by code_simp

lemma get_dates_map:
  "get_dates T pths = Inr dates \<Longrightarrow> map (product_date T) pths = map Inr dates"
proof (induction pths arbitrary: dates)
  case Nil
  then show ?case by simp
next
  case (Cons pth pths)
  from Cons.prems obtain d ds where
    "product_date T pth = Inr d" "get_dates T pths = Inr ds" "dates = d # ds"
    by (auto split: sum.splits)
  with Cons.IH[of ds] show ?case by simp
qed

lemma count_list_map_Inr:
  "map f pths = map Inr dates \<Longrightarrow> count_list dates d = length [p \<leftarrow> pths. f p = Inr d]"
proof (induction pths arbitrary: dates)
  case Nil
  then show ?case by simp
next
  case (Cons pth pths)
  then obtain e es where "dates = e # es" "f pth = Inr e" "map f pths = map Inr es"
    by (cases dates) auto
  with Cons.IH[of es] show ?case by auto
qed

lemma get_tiff_paths_dual:
  "get_tiff_paths
     (regex_of (Cat (Lit [p0]) (Alt (Lit ''v'') (Alt (Lit ''V'') (Alt (Lit ''h'') (Lit ''H''))))))
     polarization pths fs =
   [pth \<leftarrow> glob pths fs. \<exists>x\<in>set ''vVhH''. re_search_dollar (regex_of (Lit [p0, x])) pth]"
  unfolding get_tiff_paths_def by (rule filter_cong[OF refl]) (rule regex_dual_both_channels)

text \<open>
  C9, as the code has it.  In dual-channel mode the files that are counted are those
  that the pattern of cell 38 accepts: their polarization is the first letter of the
  selection followed by one of \<open>v\<close>, \<open>V\<close>, \<open>h\<close>, \<open>H\<close>.  A date is a key of the candidate
  dictionary exactly when more than one of these files carries it; cell 59 gives both
  channels the same dictionary and cell 61 keeps the keys.  So a channel's candidates
  can hold a date for which the channel has a single file, as for \<open>one_frame_dual\<close>.
\<close>

theorem dual_channel_candidates:
  "(length polarization \<noteq> 2 \<and> merge_candidates T polarization fs = Inr batches \<longrightarrow>
      (\<exists>p0 rest pths paths dates a b.
         polarization = p0 # rest \<and> tiff_pth polarization = Inr pths \<and>
         paths = [pth \<leftarrow> glob pths fs. \<exists>x\<in>set ''vVhH''. re_search_dollar (regex_of (Lit [p0, x])) pth] \<and>
         get_dates T paths = Inr dates \<and>
         (\<forall>date. count_list dates date = length [pth \<leftarrow> paths. product_date T pth = Inr date]) \<and>
         batches = [a, b] \<and> map fst a = map fst b \<and>
         (\<forall>date. date \<in> fst ` set a \<longleftrightarrow> 1 < count_list dates date))) \<and>
   merge_candidates working_tools ''VV and VH'' (files one_frame_dual) =
     Inr [[(''20210101'', '' rtc_products/P1/S1_20210101T000000_VV.tif'')],
          [(''20210101'', '' rtc_products/P1/S1_20210101T000000_VH.tif'')]]"
proof (intro conjI impI)
  assume "length polarization \<noteq> 2 \<and> merge_candidates T polarization fs = Inr batches"
  then have len: "length polarization \<noteq> 2" and mc: "merge_candidates T polarization fs = Inr batches"
    by simp_all
  from merge_candidates_unfold[OF mc] obtain regex dbl_polar pths dates polars where
    rd: "regex_dbl_polar polarization = Inr (regex, dbl_polar)" and
    tp: "tiff_pth polarization = Inr pths" and
    gd: "get_dates T (get_tiff_paths regex polarization pths fs) = Inr dates" and
    pl: "polar_list dbl_polar polarization = Inr polars" and
    ub: "update_batches T pths fs (enumerate 0 polars) (dup_date_batches dbl_polar dates) = Inr batches"
    by blast
  from rd len obtain p0 rest where pol: "polarization = p0 # rest"
    and regex: "regex = regex_of (Cat (Lit [p0]) (Alt (Lit ''v'') (Alt (Lit ''V'') (Alt (Lit ''h'') (Lit ''H'')))))"
    and dbl: "dbl_polar = True"
    by (auto simp: regex_dbl_polar_def split: list.splits)
  define paths where
    "paths = [pth \<leftarrow> glob pths fs. \<exists>x\<in>set ''vVhH''. re_search_dollar (regex_of (Lit [p0, x])) pth]"
  have gp: "get_tiff_paths regex polarization pths fs = paths"
    unfolding regex paths_def by (rule get_tiff_paths_dual)
  from gd have gd': "get_dates T paths = Inr dates" by (simp only: gp)
  have cnt: "\<forall>date. count_list dates date = length [pth \<leftarrow> paths. product_date T pth = Inr date]"
    by (intro allI count_list_map_Inr get_dates_map[OF gd'])
  let ?c = "map (\<lambda>d. (d, [] :: string)) [d \<leftarrow> remdups dates. 1 < count_list dates d]"
  have db: "dup_date_batches True dates = [?c, ?c]"
    by (simp add: dup_date_batches_eq Let_def)
  from update_batches_keys[OF ub] have keys: "map (map fst) batches = [map fst ?c, map fst ?c]"
    by (simp add: dbl db)
  then obtain a b where ab: "batches = [a, b]" and ka: "map fst a = map fst ?c" and kb: "map fst b = map fst ?c"
    by (cases batches; cases "tl batches"; cases "tl (tl batches)") auto
  have "fst ` set a = set (map fst a)" by simp
  also have "\<dots> = set (map fst ?c)" unfolding ka by (rule refl)
  also have "\<dots> = {d. 1 < count_list dates d}"
    using candidate_keys[of dates] by (simp add: comp_def)
  finally have mem: "\<forall>date. date \<in> fst ` set a \<longleftrightarrow> 1 < count_list dates date"
    by simp
  show "\<exists>p0 rest pths paths dates a b.
         polarization = p0 # rest \<and> tiff_pth polarization = Inr pths \<and>
         paths = [pth \<leftarrow> glob pths fs. \<exists>x\<in>set ''vVhH''. re_search_dollar (regex_of (Lit [p0, x])) pth] \<and>
         get_dates T paths = Inr dates \<and>
         (\<forall>date. count_list dates date = length [pth \<leftarrow> paths. product_date T pth = Inr date]) \<and>
         batches = [a, b] \<and> map fst a = map fst b \<and>
         (\<forall>date. date \<in> fst ` set a \<longleftrightarrow> 1 < count_list dates date)"
    apply (rule exI[of _ p0], rule exI[of _ rest], rule exI[of _ pths], rule exI[of _ paths],
           rule exI[of _ dates], rule exI[of _ a], rule exI[of _ b])
    apply (intro conjI)
           apply (rule pol)
          apply (rule tp)
         apply (rule paths_def)
        apply (rule gd')
       apply (rule cnt)
      apply (rule ab)
     apply (simp only: ka kb)
    apply (rule mem)
    done
next
  show "merge_candidates working_tools ''VV and VH'' (files one_frame_dual) =
     Inr [[(''20210101'', '' rtc_products/P1/S1_20210101T000000_VV.tif'')],
          [(''20210101'', '' rtc_products/P1/S1_20210101T000000_VH.tif'')]]"
    by code_simp
qed

theorem dual_channel_candidates_witness:
  "length ''VV and VH'' \<noteq> 2 \<and>
   merge_candidates working_tools ''VV and VH'' (files one_frame_dual) =
     Inr [[(''20210101'', '' rtc_products/P1/S1_20210101T000000_VV.tif'')],
          [(''20210101'', '' rtc_products/P1/S1_20210101T000000_VH.tif'')]] \<and>
   get_tiff_paths (polar_regex ''VV'') ''VV'' ''rtc_products/*/*V*.tif*'' (files one_frame_dual) =
     [''rtc_products/P1/S1_20210101T000000_VV.tif''] \<and>
   get_tiff_paths (polar_regex ''VH'') ''VH'' ''rtc_products/*/*V*.tif*'' (files one_frame_dual) =
     [''rtc_products/P1/S1_20210101T000000_VH.tif''] \<and>
   (\<exists>dates. get_dates working_tools
        (get_tiff_paths
           (regex_of (Cat (Lit ''V'') (Alt (Lit ''v'') (Alt (Lit ''V'') (Alt (Lit ''h'') (Lit ''H''))))))
           ''VV and VH'' ''rtc_products/*/*V*.tif*'' (files one_frame_dual)) = Inr dates \<and>
      1 < count_list dates ''20210101'')"
proof -
  have l: "length ''VV and VH'' \<noteq> 2" by simp
  have m: "merge_candidates working_tools ''VV and VH'' (files one_frame_dual) =
     Inr [[(''20210101'', '' rtc_products/P1/S1_20210101T000000_VV.tif'')],
          [(''20210101'', '' rtc_products/P1/S1_20210101T000000_VH.tif'')]]"
    by code_simp
  have g: "get_tiff_paths (polar_regex ''VV'') ''VV'' ''rtc_products/*/*V*.tif*'' (files one_frame_dual) =
     [''rtc_products/P1/S1_20210101T000000_VV.tif'']"
    by code_simp
  have g2: "get_tiff_paths (polar_regex ''VH'') ''VH'' ''rtc_products/*/*V*.tif*'' (files one_frame_dual) =
     [''rtc_products/P1/S1_20210101T000000_VH.tif'']"
    by code_simp
  have d: "get_dates working_tools
        (get_tiff_paths
           (regex_of (Cat (Lit ''V'') (Alt (Lit ''v'') (Alt (Lit ''V'') (Alt (Lit ''h'') (Lit ''H''))))))
           ''VV and VH'' ''rtc_products/*/*V*.tif*'' (files one_frame_dual)) = Inr [''20210101'', ''20210101'']"
    by code_simp
  note th = conjunct1[OF dual_channel_candidates[where polarization = "''VV and VH''" and T = working_tools
        and fs = "files one_frame_dual"
        and batches = "[[(''20210101'', '' rtc_products/P1/S1_20210101T000000_VV.tif'')],
                        [(''20210101'', '' rtc_products/P1/S1_20210101T000000_VH.tif'')]]"]]
  from mp[OF th conjI[OF l m]] obtain p0 rest pths paths dates a b where
    "''VV and VH'' = p0 # rest" and
    "get_dates working_tools paths = Inr dates"
    by (elim exE conjE)
  have e: "\<exists>dates. get_dates working_tools
        (get_tiff_paths
           (regex_of (Cat (Lit ''V'') (Alt (Lit ''v'') (Alt (Lit ''V'') (Alt (Lit ''h'') (Lit ''H''))))))
           ''VV and VH'' ''rtc_products/*/*V*.tif*'' (files one_frame_dual)) = Inr dates \<and>
      1 < count_list dates ''20210101''"
    by (rule exI[of _ "[''20210101'', ''20210101'']"]) (simp add: d)
  show ?thesis
    by (intro conjI) (rule l, rule m, rule g, rule g2, rule e)
qed

text \<open>
  C9 as stated fails for a selection whose channels begin with different letters.  For
  \<open>VV and HH\<close> the pattern accepts the VV and VH files and no HH file.  One VV file and
  one HH file of one date are two files across both channels, and the date is no
  candidate; one VV file and one VH file of one date make the date a candidate, though
  the two selected channels hold one file of that date.
\<close>

theorem dual_channel_mixed_selection_counterexample:
  "merge_candidates working_tools ''VV and HH''
     [(''rtc_products/P1/S1_20210101T000000_VV.tif'', Frame 0),
      (''rtc_products/P1/S1_20210101T000000_HH.tif'', Frame 1)] = Inr [[], []] \<and>
   get_dates working_tools
     (get_tiff_paths (regex_of (Lit ''VV'')) ''VV'' ''rtc_products/*/*V*.tif*''
        [(''rtc_products/P1/S1_20210101T000000_VV.tif'', Frame 0),
         (''rtc_products/P1/S1_20210101T000000_HH.tif'', Frame 1)]) = Inr [''20210101''] \<and>
   get_dates working_tools
     (get_tiff_paths (regex_of (Lit ''HH'')) ''HH'' ''rtc_products/*/*H*.tif*''
        [(''rtc_products/P1/S1_20210101T000000_VV.tif'', Frame 0),
         (''rtc_products/P1/S1_20210101T000000_HH.tif'', Frame 1)]) = Inr [''20210101''] \<and>
   merge_candidates working_tools ''VV and HH'' (files one_frame_dual) =
     Inr [[(''20210101'', '' rtc_products/P1/S1_20210101T000000_VV.tif'')], [(''20210101'', [])]] \<and>
   get_dates working_tools
     (get_tiff_paths (regex_of (Lit ''VV'')) ''VV'' ''rtc_products/*/*V*.tif*'' (files one_frame_dual)) =
     Inr [''20210101''] \<and>
   get_dates working_tools
     (get_tiff_paths (regex_of (Lit ''HH'')) ''HH'' ''rtc_products/*/*H*.tif*'' (files one_frame_dual)) =
     Inr []"
  by code_simp

text \<open>
  C1 at the failing input: in dual-channel mode, one frame present in both channels gives
  the date a count of two, and cell 63 calls gdal\_merge.py on each single file and
  removes the original.
\<close>

theorem dual_channel_single_frame_merged:
  "duplicate_date_merger working_tools ''VV and VH'' one_frame_dual =
     Inr \<lparr>files = [(''rtc_products/P1/newS1_20210101T000000_VV.tif'', Mosaic [Frame 0]),
                    (''rtc_products/P1/newS1_20210101T000000_VH.tif'', Mosaic [Frame 1])],
          calls = [[''gdal_merge.py'', ''-o'', ''rtc_products/P1/newS1_20210101T000000_VV.tif'',
                    ''rtc_products/P1/S1_20210101T000000_VV.tif''],
                   [''gdal_merge.py'', ''-o'', ''rtc_products/P1/newS1_20210101T000000_VH.tif'',
                    ''rtc_products/P1/S1_20210101T000000_VH.tif'']]\<rparr>"
  by code_simp

text \<open>
  C7 at the failing input: in dual-channel mode the Merger run on its own output, which
  has one file per date and channel, finds the date again, calls gdal\_merge.py twice more
  and replaces both files.
\<close>

theorem dual_channel_second_run_changes:
  "duplicate_date_merger working_tools ''VV and VH'' two_frames_dual =
     Inr \<lparr>files = [(''rtc_products/P1/newS1_20210101T000000_VV.tif'', Mosaic [Frame 0, Frame 2]),
                    (''rtc_products/P1/newS1_20210101T000000_VH.tif'', Mosaic [Frame 1, Frame 3])],
          calls = [[''gdal_merge.py'', ''-o'', ''rtc_products/P1/newS1_20210101T000000_VV.tif'',
                    ''rtc_products/P1/S1_20210101T000000_VV.tif'',
                    ''rtc_products/P2/S1_20210101T000025_VV.tif''],
                   [''gdal_merge.py'', ''-o'', ''rtc_products/P1/newS1_20210101T000000_VH.tif'',
                    ''rtc_products/P1/S1_20210101T000000_VH.tif'',
                    ''rtc_products/P2/S1_20210101T000025_VH.tif'']]\<rparr> \<and>
   duplicate_date_merger working_tools ''VV and VH''
     \<lparr>files = [(''rtc_products/P1/newS1_20210101T000000_VV.tif'', Mosaic [Frame 0, Frame 2]),
               (''rtc_products/P1/newS1_20210101T000000_VH.tif'', Mosaic [Frame 1, Frame 3])],
      calls = []\<rparr> =
     Inr \<lparr>files = [(''rtc_products/P1/newnewS1_20210101T000000_VV.tif'', Mosaic [Mosaic [Frame 0, Frame 2]]),
                    (''rtc_products/P1/newnewS1_20210101T000000_VH.tif'', Mosaic [Mosaic [Frame 1, Frame 3]])],
          calls = [[''gdal_merge.py'', ''-o'', ''rtc_products/P1/newnewS1_20210101T000000_VV.tif'',
                    ''rtc_products/P1/newS1_20210101T000000_VV.tif''],
                   [''gdal_merge.py'', ''-o'', ''rtc_products/P1/newnewS1_20210101T000000_VH.tif'',
                    ''rtc_products/P1/newS1_20210101T000000_VH.tif'']]\<rparr>"
  by code_simp




































text \<open>
  C10, as the code has it.  For a merge over paths \<open>dir/product/name\<close> without a space,
  the output path is \<open>dir/product/new<name>\<close> of the first contributing file; it
  differs from that file's path and is again such a path.  When it is not one of the
  other contributing paths, the mosaic is there after the inputs are removed.  Its file
  name ends with the whole name of the first file: every glob pattern of three
  components whose last begins with \<open>*\<close> and that matches the first file matches the
  output, every pattern that accepts the first file's name accepts the output path, so
  \<open>get_tiff_paths\<close> lists the output in cells 53 and 65, whose list cell 69 moves; and
  the timestamp found in the output path is the one found in the first file's path.
\<close>

theorem merge_output_new_prefix:
  assumes pp: "\<forall>p\<in>set (p1 # ps). product_path p"
    and sp: "split_on (CHR ''/'') p1 = [d0, d1, n]"
  shows "merge_output (spaced (p1 # ps)) = Inr (CHR '' '' # merged_path p1) \<and>
         merged_path p1 = d0 @ ''/'' @ d1 @ ''/new'' @ n \<and>
         merged_path p1 \<noteq> p1 \<and>
         product_path (merged_path p1) \<and>
         (\<exists>w'. merge_date T (spaced (p1 # ps)) w = Inr w' \<and>
               calls w' = calls w @ [''gdal_merge.py'' # ''-o'' # merged_path p1 # p1 # ps] \<and>
               (\<forall>c. gdal_merge T (''gdal_merge.py'' # ''-o'' # merged_path p1 # p1 # ps) (files w) = Some c \<and>
                    merged_path p1 \<notin> set ps \<longrightarrow> map_of (files w') (merged_path p1) = Some c)) \<and>
         (\<forall>pat q0 q1 q2. split_on (CHR ''/'') pat = [q0, q1, CHR ''*'' # q2] \<and> glob_match pat p1 \<longrightarrow>
               glob_match pat (merged_path p1)) \<and>
         (\<forall>r. re_search_dollar r n \<longrightarrow> re_search_dollar r (merged_path p1)) \<and>
         (\<forall>r pol pat q0 q1 q2 fs.
               split_on (CHR ''/'') pat = [q0, q1, CHR ''*'' # q2] \<and> glob_match pat p1 \<and>
               re_search_dollar r n \<and> merged_path p1 \<in> fst ` set fs \<longrightarrow>
               merged_path p1 \<in> set (get_tiff_paths r pol pat fs)) \<and>
         hyp3_date_from_product_name (merged_path p1) = hyp3_date_from_product_name p1"
proof -
  let ?out = "merged_path p1"
  let ?argv = "''gdal_merge.py'' # ''-o'' # ?out # p1 # ps"
  from pp have pp1: "product_path p1" by simp
  then have ns1: "CHR '' '' \<notin> set p1" by (simp add: product_path_def)
  have mp: "?out = d0 @ ''/'' @ d1 @ ''/new'' @ n" by (rule merged_path_split(1)[OF sp])
  have c1: "merge_output (spaced (p1 # ps)) = Inr (CHR '' '' # ?out)"
    unfolding spaced_def mp by (rule merge_output_spaced[OF sp ns1])
  have c3: "?out \<noteq> p1" by (rule merged_path_split(3)[OF sp])
  have c4: "product_path ?out" by (rule product_path_merged[OF pp1])
  from merge_date_spaced[OF pp, of T w] obtain w' argv where
    md: "merge_date T (spaced (p1 # ps)) w = Inr w'" and
    argv: "argv = ?argv" and
    cl: "calls w' = calls w @ [argv]" and
    okf: "\<forall>c. gdal_merge T argv (files w) = Some c \<longrightarrow>
            files w' = fold AList.delete (p1 # ps) (AList.update ?out c (files w))"
    by (elim exE conjE)
  have ex: "map_of (files w') ?out = Some c"
    if "gdal_merge T ?argv (files w) = Some c \<and> ?out \<notin> set ps" for c
  proof -
    from that okf have "files w' = fold AList.delete (p1 # ps) (AList.update ?out c (files w))"
      by (simp add: argv)
    moreover from that c3 have "?out \<notin> set (p1 # ps)" by simp
    ultimately show ?thesis
      by (simp only: map_of_fold_delete if_False update_conv') simp
  qed
  have c5: "\<exists>w'. merge_date T (spaced (p1 # ps)) w = Inr w' \<and>
               calls w' = calls w @ [?argv] \<and>
               (\<forall>c. gdal_merge T ?argv (files w) = Some c \<and> ?out \<notin> set ps \<longrightarrow>
                    map_of (files w') ?out = Some c)"
    apply (rule exI[of _ w'])
    apply (intro conjI allI impI)
      apply (rule md)
     apply (rule cl[unfolded argv])
    apply (erule ex)
    done
  have gl: "glob_match pat ?out"
    if "split_on (CHR ''/'') pat = [q0, q1, CHR ''*'' # q2] \<and> glob_match pat p1" for pat q0 q1 q2
    using that glob_match_merged[OF _ sp] by blast
  have "re_search_dollar r (d0 @ ''/'' @ d1 @ ''/new'' @ n)" if "re_search_dollar r n" for r
    using re_search_dollar_prefix[OF that, of "d0 @ ''/'' @ d1 @ ''/new''"] by simp
  then have re: "re_search_dollar r ?out" if "re_search_dollar r n" for r
    using that by (simp only: mp)
  have mem: "?out \<in> set (get_tiff_paths r pol pat fs)"
    if "split_on (CHR ''/'') pat = [q0, q1, CHR ''*'' # q2] \<and> glob_match pat p1 \<and>
        re_search_dollar r n \<and> ?out \<in> fst ` set fs" for r pol pat q0 q1 q2 fs
  proof -
    from that have "glob_match pat ?out" using gl by blast
    moreover from that have "re_search_dollar r ?out" using re by blast
    ultimately show ?thesis using that by (simp only: get_tiff_paths_mem simp_thms)
  qed
  have dt: "hyp3_date_from_product_name ?out = hyp3_date_from_product_name p1"
    by (rule hyp3_date_merged_path[OF sp])
  show ?thesis
    apply (intro conjI allI impI)
            apply (rule c1)
           apply (rule mp)
          apply (rule c3)
         apply (rule c4)
        apply (rule c5)
       apply (erule gl)
      apply (erule re)
     apply (erule mem)
    apply (rule dt)
    done
qed

theorem merge_output_new_prefix_witness:
  "product_path ''rtc_products/P1/S1_20210101T000000_VV.tif'' \<and>
   product_path ''rtc_products/P2/S1_20210101T000025_VV.tif'' \<and>
   split_on (CHR ''/'') ''rtc_products/P1/S1_20210101T000000_VV.tif'' =
     [''rtc_products'', ''P1'', ''S1_20210101T000000_VV.tif''] \<and>
   merged_path ''rtc_products/P1/S1_20210101T000000_VV.tif'' =
     ''rtc_products'' @ ''/'' @ ''P1'' @ ''/new'' @ ''S1_20210101T000000_VV.tif'' \<and>
   re_search_dollar (regex_of (Lit ''VV'')) ''S1_20210101T000000_VV.tif'' \<and>
   glob_match ''rtc_products/*/*V*.tif*'' ''rtc_products/P1/S1_20210101T000000_VV.tif'' \<and>
   get_tiff_paths (regex_of (Lit ''VV'')) ''VV'' ''rtc_products/*/*V*.tif*''
     [(''rtc_products/P3/S1_20210113T000000_VV.tif'', Frame 2),
      (''rtc_products/P1/newS1_20210101T000000_VV.tif'', Mosaic [Frame 0, Frame 1])] =
     [''rtc_products/P3/S1_20210113T000000_VV.tif'', ''rtc_products/P1/newS1_20210101T000000_VV.tif''] \<and>
   hyp3_date_from_product_name ''rtc_products/P1/newS1_20210101T000000_VV.tif'' = Some ''20210101T000000''"
proof -
  have p1: "product_path ''rtc_products/P1/S1_20210101T000000_VV.tif''" by code_simp
  have p2: "product_path ''rtc_products/P2/S1_20210101T000025_VV.tif''" by code_simp
  from p1 p2 have h1: "\<forall>p\<in>set [''rtc_products/P1/S1_20210101T000000_VV.tif'',
              ''rtc_products/P2/S1_20210101T000025_VV.tif'']. product_path p"
    by simp
  have h2: "split_on (CHR ''/'') ''rtc_products/P1/S1_20210101T000000_VV.tif'' =
     [''rtc_products'', ''P1'', ''S1_20210101T000000_VV.tif'']"
    by code_simp
  note th = merge_output_new_prefix[OF h1 h2, of working_tools two_frames_vv]
  from th have m: "merged_path ''rtc_products/P1/S1_20210101T000000_VV.tif'' =
     ''rtc_products'' @ ''/'' @ ''P1'' @ ''/new'' @ ''S1_20210101T000000_VV.tif''"
    by (elim conjE)
  have r: "re_search_dollar (regex_of (Lit ''VV'')) ''S1_20210101T000000_VV.tif''"
    by code_simp
  have g: "glob_match ''rtc_products/*/*V*.tif*'' ''rtc_products/P1/S1_20210101T000000_VV.tif''"
    by code_simp
  have t: "get_tiff_paths (regex_of (Lit ''VV'')) ''VV'' ''rtc_products/*/*V*.tif*''
     [(''rtc_products/P3/S1_20210113T000000_VV.tif'', Frame 2),
      (''rtc_products/P1/newS1_20210101T000000_VV.tif'', Mosaic [Frame 0, Frame 1])] =
     [''rtc_products/P3/S1_20210113T000000_VV.tif'', ''rtc_products/P1/newS1_20210101T000000_VV.tif'']"
    by code_simp
  have d: "hyp3_date_from_product_name ''rtc_products/P1/newS1_20210101T000000_VV.tif'' = Some ''20210101T000000''"
    by code_simp
  show ?thesis
    by (intro conjI) (rule p1, rule p2, rule h2, rule m, rule r, rule g, rule t, rule d)
qed

text \<open>
  C10 as stated fails: in \<open>leftover_vv\<close> the output path formed from the first
  contributing file is the second contributing file; it is written and then removed
  with the inputs, and no raster of the date remains.
\<close>

theorem merge_output_among_inputs_counterexample:
  "merge_candidates working_tools ''VV'' (files leftover_vv) =
     Inr [[(''20210101'',
            '' rtc_products/P1/S1_20210101T000000_VV.tif rtc_products/P1/newS1_20210101T000000_VV.tif'')]] \<and>
   merge_output '' rtc_products/P1/S1_20210101T000000_VV.tif rtc_products/P1/newS1_20210101T000000_VV.tif''
     = Inr '' rtc_products/P1/newS1_20210101T000000_VV.tif'' \<and>
   duplicate_date_merger working_tools ''VV'' leftover_vv =
     Inr \<lparr>files = [],
          calls = [[''gdal_merge.py'', ''-o'', ''rtc_products/P1/newS1_20210101T000000_VV.tif'',
                    ''rtc_products/P1/S1_20210101T000000_VV.tif'',
                    ''rtc_products/P1/newS1_20210101T000000_VV.tif'']]\<rparr>"
  by code_simp

end
